theory Spec2Isabelle
  imports Complex_Main "HOL-Library.Word" "HOL-Library.Char_ord" "HOL-Library.List_Lexorder"
begin

unbundle bit_operations_syntax

section \<open>Python text\<close>

text \<open>
  A Python \<open>str\<close> is modelled as a \<open>string\<close>: a list of characters, each character a
  code point below 256. Text with code points from 256 on is outside the model. The
  order on strings is the lexicographic order on code points, as Python compares text.
\<close>

text \<open>The errors the program raises, as values. \<open>PyException\<close> is a plain \<open>Exception\<close>.\<close>

datatype request_error = ConnectionError | RetryError | HTTPError nat | JSONDecodeError

datatype error =
    ValueError string
  | PyException string
  | RequestException request_error
  | AttributeError
  | TypeError
  | DatabaseError

text \<open>\<open>str.isspace\<close> on one character, for code points below 256.\<close>

definition is_space :: "char \<Rightarrow> bool" where
  "is_space c = (let n = (of_char c :: nat) in
     (9 \<le> n \<and> n \<le> 13) \<or> (28 \<le> n \<and> n \<le> 32) \<or> n = 133 \<or> n = 160)"

text \<open>\<open>s.rstrip(chars)\<close>, \<open>s.lstrip()\<close>, \<open>s.rstrip()\<close> and \<open>s.strip()\<close>.\<close>

definition rstrip_chars :: "string \<Rightarrow> string \<Rightarrow> string" where
  "rstrip_chars chars s = rev (dropWhile (\<lambda>c. c \<in> set chars) (rev s))"

definition lstrip :: "string \<Rightarrow> string" where
  "lstrip s = dropWhile is_space s"

definition rstrip :: "string \<Rightarrow> string" where
  "rstrip s = rev (dropWhile is_space (rev s))"

definition strip :: "string \<Rightarrow> string" where
  "strip s = rstrip (lstrip s)"

text \<open>\<open>str.lower\<close>: the letters A to Z and the capital letters of Latin-1 move by 32.\<close>

definition lower_char :: "char \<Rightarrow> char" where
  "lower_char c = (let n = (of_char c :: nat) in
     if (65 \<le> n \<and> n \<le> 90) \<or> (192 \<le> n \<and> n \<le> 222 \<and> n \<noteq> 215)
     then char_of (n + 32) else c)"

definition lower :: "string \<Rightarrow> string" where
  "lower s = map lower_char s"

definition startswith :: "string \<Rightarrow> string \<Rightarrow> bool" where
  "startswith s p = (take (length p) s = p)"

text \<open>\<open>s.split(sep)\<close> for a separator of one character: never the empty list.\<close>

fun split_on :: "char \<Rightarrow> string \<Rightarrow> string list" where
  "split_on sep [] = [[]]"
| "split_on sep (c # cs) =
     (if c = sep then [] # split_on sep cs
      else (case split_on sep cs of
              [] \<Rightarrow> [[c]]
            | w # ws \<Rightarrow> (c # w) # ws))"

text \<open>\<open>sep.join(parts)\<close>.\<close>

fun join :: "string \<Rightarrow> string list \<Rightarrow> string" where
  "join sep [] = []"
| "join sep [x] = x"
| "join sep (x # y # ys) = x @ sep @ join sep (y # ys)"

text \<open>\<open>str(n)\<close> of an integer: decimal digits, a minus sign for a negative one.\<close>

definition digit_char :: "nat \<Rightarrow> char" where
  "digit_char d = char_of (48 + d)"

fun str_nat :: "nat \<Rightarrow> string" where
  "str_nat n = (if n < 10 then [digit_char n] else str_nat (n div 10) @ [digit_char (n mod 10)])"

declare str_nat.simps [simp del]

definition str_int :: "int \<Rightarrow> string" where
  "str_int i = (if i < 0 then CHR ''-'' # str_nat (nat (- i)) else str_nat (nat i))"

text \<open>Lower-case hexadecimal: one digit, and a byte as two digits.\<close>

definition hex_digit :: "nat \<Rightarrow> char" where
  "hex_digit d = (if d < 10 then char_of (48 + d) else char_of (87 + d))"

definition hex2 :: "nat \<Rightarrow> string" where
  "hex2 n = [hex_digit ((n div 16) mod 16), hex_digit (n mod 16)]"

section \<open>The URL validator\<close>

definition MIN_HTTPS_URL_LENGTH :: nat where
  "MIN_HTTPS_URL_LENGTH = 12"

text \<open>
  \<open>MoodleAPIClient._validate_url\<close>. The informational log line written when the scheme is
  added is not part of the model.
\<close>

definition validate_url :: "string \<Rightarrow> error + string" where
  "validate_url url0 =
     (if url0 = [] then Inl (ValueError ''Moodle URL cannot be empty'')
      else
        let url1 = strip url0 in
        if startswith (lower url1) ''http://'' then
          Inl (ValueError (''Insecure HTTP protocol detected. Please use HTTPS for Moodle URL: ''
                 @ url1 @ [CHR 0x0A] @ ''Change '' @ [CHR 0x27] @ ''http://'' @ [CHR 0x27]
                 @ '' to '' @ [CHR 0x27] @ ''https://'' @ [CHR 0x27]))
        else
          let url2 = (if \<not> startswith (lower url1) ''https://'' then ''https://'' @ url1 else url1);
              url3 = rstrip_chars ''/'' url2
          in if \<not> startswith url3 ''https://'' \<or> length url3 < MIN_HTTPS_URL_LENGTH
             then Inl (ValueError (''Invalid Moodle URL format: '' @ url3))
             else Inr url3)"

section \<open>JSON values and their serialisation\<close>

text \<open>
  The values \<open>json.loads\<close> gives and \<open>json.dumps\<close> takes. A \<open>dict\<close> is an association
  list in insertion order; a Python \<open>dict\<close> holds each key once (\<open>wf_json\<close>). A \<open>float\<close>
  is carried as the text \<open>float.__repr__\<close> gives for it, which determines the float.
\<close>

datatype json =
    JNull
  | JBool bool
  | JInt int
  | JFloat string
  | JStr string
  | JList "json list"
  | JDict "(string \<times> json) list"

fun wf_json :: "json \<Rightarrow> bool" where
  "wf_json (JList xs) = (\<forall>x \<in> set xs. wf_json x)"
| "wf_json (JDict d) = (distinct (map fst d) \<and> (\<forall>kv \<in> set d. wf_json (snd kv)))"
| "wf_json _ = True"

text \<open>\<open>isinstance(x, dict)\<close>, \<open>k in d\<close>, \<open>d.get(k)\<close> (\<open>None\<close> when absent) and \<open>d.get(k, default)\<close>.\<close>

fun is_dict :: "json \<Rightarrow> bool" where
  "is_dict (JDict d) = True"
| "is_dict _ = False"

definition has_key :: "(string \<times> json) list \<Rightarrow> string \<Rightarrow> bool" where
  "has_key d k = (k \<in> set (map fst d))"

definition dict_get :: "(string \<times> json) list \<Rightarrow> string \<Rightarrow> json \<Rightarrow> json" where
  "dict_get d k dflt = (case map_of d k of None \<Rightarrow> dflt | Some v \<Rightarrow> v)"

text \<open>\<open>d[k] = v\<close>: an existing key keeps its place, a new key goes last.\<close>

fun dict_set :: "(string \<times> json) list \<Rightarrow> string \<Rightarrow> json \<Rightarrow> (string \<times> json) list" where
  "dict_set [] k v = [(k, v)]"
| "dict_set ((k', v') # d) k v = (if k' = k then (k, v) # d else (k', v') # dict_set d k v)"

text \<open>The truth value of a JSON value, as \<open>if x\<close>, \<open>not x\<close> and \<open>x or y\<close> read it.\<close>

fun truthy :: "json \<Rightarrow> bool" where
  "truthy JNull = False"
| "truthy (JBool b) = b"
| "truthy (JInt i) = (i \<noteq> 0)"
| "truthy (JFloat r) = (r \<noteq> ''0.0'' \<and> r \<noteq> ''-0.0'')"
| "truthy (JStr s) = (s \<noteq> [])"
| "truthy (JList xs) = (xs \<noteq> [])"
| "truthy (JDict d) = (d \<noteq> [])"

definition py_or :: "json \<Rightarrow> json \<Rightarrow> json" where
  "py_or x y = (if truthy x then x else y)"

text \<open>
  \<open>json.encoder.py_encode_basestring_ascii\<close>: the printable ASCII characters stand for
  themselves, except the backslash and the double quote; every other character is
  escaped.
\<close>

definition escape_char :: "char \<Rightarrow> string" where
  "escape_char c =
     (if c = CHR 0x5C then [CHR 0x5C, CHR 0x5C]
      else if c = CHR 0x22 then [CHR 0x5C, CHR 0x22]
      else if c = CHR 0x08 then [CHR 0x5C, CHR ''b'']
      else if c = CHR 0x0C then [CHR 0x5C, CHR ''f'']
      else if c = CHR 0x0A then [CHR 0x5C, CHR ''n'']
      else if c = CHR 0x0D then [CHR 0x5C, CHR ''r'']
      else if c = CHR 0x09 then [CHR 0x5C, CHR ''t'']
      else if 32 \<le> (of_char c :: nat) \<and> (of_char c :: nat) \<le> 126 then [c]
      else [CHR 0x5C, CHR ''u'', CHR ''0'', CHR ''0''] @ hex2 (of_char c))"

definition encode_basestring_ascii :: "string \<Rightarrow> string" where
  "encode_basestring_ascii s = [CHR 0x22] @ concat (map escape_char s) @ [CHR 0x22]"

text \<open>\<open>json.encoder.floatstr\<close> with \<open>allow_nan\<close>: the repr, but for the three non-finite values.\<close>

definition floatstr :: "string \<Rightarrow> string" where
  "floatstr r =
     (if r = ''nan'' then ''NaN''
      else if r = ''inf'' then ''Infinity''
      else if r = ''-inf'' then ''-Infinity''
      else r)"

text \<open>
  \<open>json.dumps(data, sort_keys=sk)\<close> with the default separators. With \<open>sort_keys\<close> the
  items of every \<open>dict\<close> are written in the order \<open>sorted(dct.items())\<close> gives: by key,
  and the keys of a \<open>dict\<close> differ, so no two values are compared.
\<close>

function dumps :: "bool \<Rightarrow> json \<Rightarrow> string" where
  "dumps sk JNull = ''null''"
| "dumps sk (JBool b) = (if b then ''true'' else ''false'')"
| "dumps sk (JInt i) = str_int i"
| "dumps sk (JFloat r) = floatstr r"
| "dumps sk (JStr s) = encode_basestring_ascii s"
| "dumps sk (JList xs) = ''['' @ join '', '' (map (dumps sk) xs) @ '']''"
| "dumps sk (JDict d) =
     ''{'' @ join '', ''
        (map (\<lambda>kv. encode_basestring_ascii (fst kv) @ '': '' @ dumps sk (snd kv))
             (if sk then sort_key fst d else d)) @ ''}''"
  by pat_completeness auto
termination
proof (relation "measure (\<lambda>(sk, j). size j)")
  show "wf (measure (\<lambda>(sk, j). size j))" by simp
next
  fix sk :: bool and xs :: "json list" and x :: json
  assume "x \<in> set xs"
  then show "((sk, x), (sk, JList xs)) \<in> measure (\<lambda>(sk, j). size j)"
    by (induction xs) auto
next
  fix sk :: bool and d :: "(string \<times> json) list" and kv :: "string \<times> json"
  assume "kv \<in> set (if sk then sort_key fst d else d)"
  then have "kv \<in> set d" by (simp split: if_splits)
  then have "size (snd kv) < Suc (size_list (size_prod (\<lambda>_. 0) size) d)"
    by (induction d) auto
  then show "((sk, snd kv), (sk, JDict d)) \<in> measure (\<lambda>(sk, j). size j)"
    by simp
qed

text \<open>
  Equality up to the order of keys: lists are compared position by position, two
  \<open>dict\<close>s have the same keys and equivalent values under each key, any other two values
  are the same value of the same type (the integer 1, the float 1.0 and \<open>True\<close> differ,
  as their serialisations do).
\<close>

function (sequential) json_equiv :: "json \<Rightarrow> json \<Rightarrow> bool" where
  "json_equiv (JList xs) (JList ys) =
     (length xs = length ys \<and> (\<forall>p \<in> set (zip xs ys). json_equiv (fst p) (snd p)))"
| "json_equiv (JDict a) (JDict b) =
     (set (map fst a) = set (map fst b)
      \<and> (\<forall>kv \<in> set a. \<forall>kv' \<in> set b. fst kv = fst kv' \<longrightarrow> json_equiv (snd kv) (snd kv')))"
| "json_equiv x y = (x = y)"
  by pat_completeness auto
termination
proof (relation "measure (\<lambda>(x, y). size x)")
  show "wf (measure (\<lambda>(x :: json, y :: json). size x))" by simp
next
  fix xs ys :: "json list" and p :: "json \<times> json"
  assume "p \<in> set (zip xs ys)"
  then have "(fst p, snd p) \<in> set (zip xs ys)" by simp
  then have "fst p \<in> set xs" by (rule set_zip_leftD)
  then have "size (fst p) < Suc (size_list size xs)"
    by (induction xs) auto
  then show "((fst p, snd p), (JList xs, JList ys)) \<in> measure (\<lambda>(x, y). size x)"
    by (simp add: case_prod_unfold)
next
  fix a b :: "(string \<times> json) list" and kv kv' :: "string \<times> json"
  assume "kv \<in> set a"
  then have "size (snd kv) < Suc (size_list (size_prod (\<lambda>_. 0) size) a)"
    by (induction a) auto
  then show "((snd kv, snd kv'), (JDict a, JDict b)) \<in> measure (\<lambda>(x, y). size x)"
    by simp
qed

section \<open>The content hash\<close>

text \<open>
  \<open>str.encode()\<close>: UTF-8. A code point below 128 is one byte, one from 128 to 255 is two.
\<close>

definition utf8_char :: "char \<Rightarrow> 8 word list" where
  "utf8_char c = (let n = (of_char c :: nat) in
     if n < 128 then [word_of_nat n]
     else [word_of_nat (192 + n div 64), word_of_nat (128 + n mod 64)])"

definition encode :: "string \<Rightarrow> 8 word list" where
  "encode s = concat (map utf8_char s)"

text \<open>
  \<open>hashlib.md5\<close>, the MD5 message digest of RFC 1321, on 32-bit words: the shift amounts,
  the sine table, the padding (the length in bits as a 64-bit word, which wraps), the
  four rounds of sixteen steps on each block of 64 bytes, and the digest as sixteen
  bytes.
\<close>

definition md5_shift :: "nat list" where
  "md5_shift =
    [7, 12, 17, 22, 7, 12, 17, 22, 7, 12, 17, 22, 7, 12, 17, 22,
     5, 9, 14, 20, 5, 9, 14, 20, 5, 9, 14, 20, 5, 9, 14, 20,
     4, 11, 16, 23, 4, 11, 16, 23, 4, 11, 16, 23, 4, 11, 16, 23,
     6, 10, 15, 21, 6, 10, 15, 21, 6, 10, 15, 21, 6, 10, 15, 21]"

definition md5_sine :: "32 word list" where
  "md5_sine =
    [0xd76aa478, 0xe8c7b756, 0x242070db, 0xc1bdceee,
     0xf57c0faf, 0x4787c62a, 0xa8304613, 0xfd469501,
     0x698098d8, 0x8b44f7af, 0xffff5bb1, 0x895cd7be,
     0x6b901122, 0xfd987193, 0xa679438e, 0x49b40821,
     0xf61e2562, 0xc040b340, 0x265e5a51, 0xe9b6c7aa,
     0xd62f105d, 0x02441453, 0xd8a1e681, 0xe7d3fbc8,
     0x21e1cde6, 0xc33707d6, 0xf4d50d87, 0x455a14ed,
     0xa9e3e905, 0xfcefa3f8, 0x676f02d9, 0x8d2a4c8a,
     0xfffa3942, 0x8771f681, 0x6d9d6122, 0xfde5380c,
     0xa4beea44, 0x4bdecfa9, 0xf6bb4b60, 0xbebfbc70,
     0x289b7ec6, 0xeaa127fa, 0xd4ef3085, 0x04881d05,
     0xd9d4d039, 0xe6db99e5, 0x1fa27cf8, 0xc4ac5665,
     0xf4292244, 0x432aff97, 0xab9423a7, 0xfc93a039,
     0x655b59c3, 0x8f0ccc92, 0xffeff47d, 0x85845dd1,
     0x6fa87e4f, 0xfe2ce6e0, 0xa3014314, 0x4e0811a1,
     0xf7537e82, 0xbd3af235, 0x2ad7d2bb, 0xeb86d391]"

definition le32 :: "8 word list \<Rightarrow> 32 word" where
  "le32 bs = foldr (\<lambda>b w. push_bit 8 w + ucast b) bs 0"

definition bytes_le :: "nat \<Rightarrow> 'a::len word \<Rightarrow> 8 word list" where
  "bytes_le k w = map (\<lambda>i. ucast (drop_bit (8 * i) w)) [0..<k]"

definition md5_pad :: "8 word list \<Rightarrow> 8 word list" where
  "md5_pad m = m @ [0x80] @ replicate ((119 - length m mod 64) mod 64) 0
                 @ bytes_le 8 (word_of_nat (8 * length m) :: 64 word)"

fun chop :: "nat \<Rightarrow> 'a list \<Rightarrow> 'a list list" where
  "chop 0 xs = []"
| "chop (Suc n) [] = []"
| "chop (Suc n) (x # xs) = take (Suc n) (x # xs) # chop (Suc n) (drop (Suc n) (x # xs))"

type_synonym md5_state = "32 word \<times> 32 word \<times> 32 word \<times> 32 word"

definition md5_step :: "32 word list \<Rightarrow> nat \<Rightarrow> md5_state \<Rightarrow> md5_state" where
  "md5_step M i st = (case st of (a, b, c, d) \<Rightarrow>
     let f = (if i < 16 then (b AND c) OR (NOT b AND d)
              else if i < 32 then (d AND b) OR (NOT d AND c)
              else if i < 48 then b XOR c XOR d
              else c XOR (b OR NOT d));
         g = (if i < 16 then i
              else if i < 32 then (5 * i + 1) mod 16
              else if i < 48 then (3 * i + 5) mod 16
              else (7 * i) mod 16);
         t = f + a + md5_sine ! i + M ! g
     in (d, b + word_rotl (md5_shift ! i) t, b, c))"

definition md5_block :: "md5_state \<Rightarrow> 8 word list \<Rightarrow> md5_state" where
  "md5_block st blk = (case st of (a0, b0, c0, d0) \<Rightarrow>
     case fold (md5_step (map le32 (chop 4 blk))) [0..<64] st of (a, b, c, d) \<Rightarrow>
       (a0 + a, b0 + b, c0 + c, d0 + d))"

definition md5_digest :: "8 word list \<Rightarrow> 8 word list" where
  "md5_digest m =
     (case fold (\<lambda>blk st. md5_block st blk) (chop 64 (md5_pad m))
             (0x67452301, 0xefcdab89, 0x98badcfe, 0x10325476) of
        (a, b, c, d) \<Rightarrow> concat (map (bytes_le 4) [a, b, c, d]))"

definition hexdigest :: "8 word list \<Rightarrow> string" where
  "hexdigest bs = concat (map (\<lambda>b. hex2 (unat b)) bs)"

text \<open>\<open>compute_hash\<close>: the MD5 hex digest of the key-sorted serialisation.\<close>

definition compute_hash :: "json \<Rightarrow> string" where
  "compute_hash data = (let json_str = dumps True data in hexdigest (md5_digest (encode json_str)))"

section \<open>Python's text form of a JSON value\<close>

text \<open>
  \<open>repr\<close> of a \<open>str\<close>: single quotes, or double quotes when the text holds a single quote
  and no double quote; the quote, the backslash and the characters that are not
  printable are escaped.
\<close>

definition repr_quote :: "string \<Rightarrow> char" where
  "repr_quote s = (if CHR 0x27 \<in> set s \<and> CHR 0x22 \<notin> set s then CHR 0x22 else CHR 0x27)"

definition repr_char :: "char \<Rightarrow> char \<Rightarrow> string" where
  "repr_char q c = (let n = (of_char c :: nat) in
     if c = q \<or> c = CHR 0x5C then [CHR 0x5C, c]
     else if c = CHR 0x09 then [CHR 0x5C, CHR ''t'']
     else if c = CHR 0x0A then [CHR 0x5C, CHR ''n'']
     else if c = CHR 0x0D then [CHR 0x5C, CHR ''r'']
     else if n < 32 \<or> n = 127 \<or> (128 \<le> n \<and> n \<le> 160) \<or> n = 173
       then [CHR 0x5C, CHR ''x''] @ hex2 n
     else [c])"

definition repr_str :: "string \<Rightarrow> string" where
  "repr_str s = (let q = repr_quote s in [q] @ concat (map (repr_char q) s) @ [q])"

text \<open>\<open>repr(x)\<close> and \<open>str(x)\<close>, the latter as an f-string formats a value.\<close>

function py_repr :: "json \<Rightarrow> string" where
  "py_repr JNull = ''None''"
| "py_repr (JBool b) = (if b then ''True'' else ''False'')"
| "py_repr (JInt i) = str_int i"
| "py_repr (JFloat r) = r"
| "py_repr (JStr s) = repr_str s"
| "py_repr (JList xs) = ''['' @ join '', '' (map py_repr xs) @ '']''"
| "py_repr (JDict d) =
     ''{'' @ join '', '' (map (\<lambda>kv. repr_str (fst kv) @ '': '' @ py_repr (snd kv)) d) @ ''}''"
  by pat_completeness auto
termination
proof (relation "measure size")
  show "wf (measure (size :: json \<Rightarrow> nat))" by simp
next
  fix xs :: "json list" and x :: json
  assume "x \<in> set xs"
  then show "(x, JList xs) \<in> measure size"
    by (induction xs) auto
next
  fix d :: "(string \<times> json) list" and kv :: "string \<times> json"
  assume "kv \<in> set d"
  then have "size (snd kv) < Suc (size_list (size_prod (\<lambda>_. 0) size) d)"
    by (induction d) auto
  then show "(snd kv, JDict d) \<in> measure size"
    by simp
qed

fun py_str :: "json \<Rightarrow> string" where
  "py_str (JStr s) = s"
| "py_str v = py_repr v"

section \<open>The API client\<close>

record client =
  base_url :: string
  token :: string
  rate_limit_delay :: real
  timeout :: nat
  max_retries :: nat

text \<open>
  \<open>MoodleAPIClient.__init__\<close>: the URL is validated, the rest is stored. The retry bound
  lives in the strategy mounted on the session. \<open>new_client\<close> is the call with the default
  arguments, as \<open>get_moodle_client\<close> makes it.
\<close>

definition MoodleAPIClient_init ::
  "string \<Rightarrow> string \<Rightarrow> real \<Rightarrow> nat \<Rightarrow> nat \<Rightarrow> error + client" where
  "MoodleAPIClient_init url tok delay retries tmo =
     (case validate_url url of
        Inl e \<Rightarrow> Inl e
      | Inr u \<Rightarrow> Inr \<lparr>base_url = u, token = tok, rate_limit_delay = delay,
                      timeout = tmo, max_retries = retries\<rparr>)"

definition new_client :: "string \<Rightarrow> string \<Rightarrow> error + client" where
  "new_client url tok = MoodleAPIClient_init url tok 1 3 30"

text \<open>
  The remote side. One HTTP attempt either fails on the network or brings a response: its
  status and its body as \<open>response.json()\<close> decodes it (\<open>None\<close> when the body is not JSON).
  A \<open>server\<close> gives the outcome of the n-th attempt put on the wire. The \<open>world\<close> records
  every attempt sent (the URL and the form fields) and every \<open>time.sleep\<close> that
  \<open>_call_api\<close> makes.
\<close>

datatype attempt = NetworkFailure | Response nat "json option"

type_synonym server = "nat \<Rightarrow> attempt"

type_synonym request = "string \<times> (string \<times> json) list"

record world =
  sent :: "request list"
  slept :: "real list"

definition status_forcelist :: "nat list" where
  "status_forcelist = [429, 500, 502, 503, 504]"

text \<open>
  \<open>session.post\<close>: the session of the requests library with the retry strategy that
  \<open>__init__\<close> mounts on it (\<open>total=max_retries\<close>, the statuses of \<open>status_forcelist\<close>, POST
  allowed). This is library code, modelled from that configuration: an attempt that fails
  on the network or brings a status of \<open>status_forcelist\<close> is sent again while retries
  remain; when none remains the transport error is raised. Any other response is
  returned. The waiting between the retries happens inside the library and is not
  recorded in \<open>slept\<close>.
\<close>

fun session_post ::
  "server \<Rightarrow> nat \<Rightarrow> request \<Rightarrow> world \<Rightarrow> (request_error + nat \<times> json option) \<times> world" where
  "session_post srv 0 req w =
     (let w' = w\<lparr>sent := sent w @ [req]\<rparr> in
      case srv (length (sent w)) of
        NetworkFailure \<Rightarrow> (Inl ConnectionError, w')
      | Response st body \<Rightarrow>
          if st \<in> set status_forcelist then (Inl RetryError, w') else (Inr (st, body), w'))"
| "session_post srv (Suc r) req w =
     (let w' = w\<lparr>sent := sent w @ [req]\<rparr> in
      case srv (length (sent w)) of
        NetworkFailure \<Rightarrow> session_post srv r req w'
      | Response st body \<Rightarrow>
          if st \<in> set status_forcelist then session_post srv r req w' else (Inr (st, body), w'))"

text \<open>\<open>payload.update(params)\<close>.\<close>

definition dict_update :: "(string \<times> json) list \<Rightarrow> (string \<times> json) list \<Rightarrow> (string \<times> json) list" where
  "dict_update d params = fold (\<lambda>kv acc. dict_set acc (fst kv) (snd kv)) params d"

text \<open>
  \<open>MoodleAPIClient._call_api\<close>. \<open>raise_for_status\<close> raises for a status from 400 to 599.
  The result is the error raised or the value returned, and the world after the call.
  The log lines are not part of the model.
\<close>

definition call_api ::
  "server \<Rightarrow> client \<Rightarrow> string \<Rightarrow> (string \<times> json) list \<Rightarrow> world \<Rightarrow> (error + json) \<times> world" where
  "call_api srv c function params w =
     (let url = base_url c @ ''/webservice/rest/server.php'';
          payload = dict_update
                      [(''wstoken'', JStr (token c)),
                       (''wsfunction'', JStr function),
                       (''moodlewsrestformat'', JStr ''json'')] params
      in case session_post srv (max_retries c) (url, payload) w of
           (Inl e, w1) \<Rightarrow> (Inl (RequestException e), w1)
         | (Inr (st, body), w1) \<Rightarrow>
             if 400 \<le> st \<and> st < 600 then (Inl (RequestException (HTTPError st)), w1)
             else (case body of
                     None \<Rightarrow> (Inl (RequestException JSONDecodeError), w1)
                   | Some data \<Rightarrow>
                       (case data of
                          JDict d \<Rightarrow>
                            if has_key d ''exception''
                            then (Inl (PyException (''Moodle API Error: ''
                                        @ py_str (dict_get d ''message'' (JStr ''Unknown error'')))), w1)
                            else (Inr (JList [data]), w1\<lparr>slept := slept w1 @ [rate_limit_delay c]\<rparr>)
                        | JList xs \<Rightarrow> (Inr data, w1\<lparr>slept := slept w1 @ [rate_limit_delay c]\<rparr>)
                        | _ \<Rightarrow> (Inr (JList [data]), w1\<lparr>slept := slept w1 @ [rate_limit_delay c]\<rparr>))))"

section \<open>The entity methods\<close>

text \<open>
  Each method calls \<open>_call_api\<close> and passes its error on. A search criterion is given as
  the pair of its \<open>key\<close> and \<open>value\<close> entries.
\<close>

fun criteria_params :: "nat \<Rightarrow> (string \<times> string) list \<Rightarrow> (string \<times> json) list" where
  "criteria_params idx [] = []"
| "criteria_params idx ((k, v) # rest) =
     (''criteria['' @ str_nat idx @ ''][key]'', JStr k)
       # (''criteria['' @ str_nat idx @ ''][value]'', JStr v)
       # criteria_params (Suc idx) rest"

text \<open>\<open>result.get(key, []) if isinstance(result, dict) else result\<close>.\<close>

definition unwrap :: "string \<Rightarrow> json \<Rightarrow> json" where
  "unwrap key result = (case result of JDict d \<Rightarrow> dict_get d key (JList []) | _ \<Rightarrow> result)"

definition get_users ::
  "server \<Rightarrow> client \<Rightarrow> (string \<times> string) list \<Rightarrow> world \<Rightarrow> (error + json) \<times> world" where
  "get_users srv c criteria w =
     (case call_api srv c ''core_user_get_users'' (criteria_params 0 criteria) w of
        (Inl e, w') \<Rightarrow> (Inl e, w')
      | (Inr result, w') \<Rightarrow> (Inr (unwrap ''users'' result), w'))"

definition get_courses :: "server \<Rightarrow> client \<Rightarrow> world \<Rightarrow> (error + json) \<times> world" where
  "get_courses srv c w = call_api srv c ''core_course_get_courses'' [] w"

definition get_enrolled_users ::
  "server \<Rightarrow> client \<Rightarrow> json \<Rightarrow> world \<Rightarrow> (error + json) \<times> world" where
  "get_enrolled_users srv c course_id w =
     call_api srv c ''core_enrol_get_enrolled_users'' [(''courseid'', course_id)] w"

definition get_roles :: "server \<Rightarrow> client \<Rightarrow> world \<Rightarrow> (error + json) \<times> world" where
  "get_roles srv c w = call_api srv c ''core_role_get_all_roles'' [] w"

definition get_enrolment_methods ::
  "server \<Rightarrow> client \<Rightarrow> json \<Rightarrow> world \<Rightarrow> (error + json) \<times> world" where
  "get_enrolment_methods srv c course_id w =
     call_api srv c ''core_enrol_get_course_enrolment_methods'' [(''courseid'', course_id)] w"

definition get_course_grade_items ::
  "server \<Rightarrow> client \<Rightarrow> json \<Rightarrow> world \<Rightarrow> (error + json) \<times> world" where
  "get_course_grade_items srv c course_id w =
     (case call_api srv c ''gradereport_user_get_grade_items'' [(''courseid'', course_id)] w of
        (Inl e, w') \<Rightarrow> (Inl e, w')
      | (Inr result, w') \<Rightarrow> (Inr (unwrap ''usergrades'' result), w'))"

definition get_grades ::
  "server \<Rightarrow> client \<Rightarrow> json \<Rightarrow> json \<Rightarrow> world \<Rightarrow> (error + json) \<times> world" where
  "get_grades srv c course_id user_id w =
     (let params = (if truthy user_id
                    then [(''courseid'', course_id), (''userid'', user_id)]
                    else [(''courseid'', course_id)])
      in case call_api srv c ''gradereport_user_get_grades_table'' params w of
           (Inl e, w') \<Rightarrow> (Inl e, w')
         | (Inr result, w') \<Rightarrow> (Inr (unwrap ''tables'' result), w'))"

definition get_course_completion ::
  "server \<Rightarrow> client \<Rightarrow> json \<Rightarrow> json \<Rightarrow> world \<Rightarrow> (error + json) \<times> world" where
  "get_course_completion srv c course_id user_id w =
     (case call_api srv c ''core_completion_get_course_completion_status''
             [(''courseid'', course_id), (''userid'', user_id)] w of
        (Inl e, w') \<Rightarrow> (Inl e, w')
      | (Inr result, w') \<Rightarrow>
          (Inr (case result of JList (x # xs) \<Rightarrow> x | _ \<Rightarrow> result), w'))"

section \<open>The fan-out extractions\<close>

text \<open>
  \<open>for x in value\<close>: a list gives its elements, a \<open>dict\<close> its keys, a text its characters;
  nothing else can be iterated.
\<close>

fun py_iter :: "json \<Rightarrow> error + json list" where
  "py_iter (JList xs) = Inr xs"
| "py_iter (JDict d) = Inr (map (\<lambda>kv. JStr (fst kv)) d)"
| "py_iter (JStr s) = Inr (map (\<lambda>ch. JStr [ch]) s)"
| "py_iter _ = Inl TypeError"

text \<open>\<open>x[key] = value\<close>: only a \<open>dict\<close> takes it.\<close>

fun set_item :: "json \<Rightarrow> string \<Rightarrow> json \<Rightarrow> error + json" where
  "set_item (JDict d) key v = Inr (JDict (dict_set d key v))"
| "set_item _ key v = Inl TypeError"

text \<open>\<open>for item in items: item[key] = value\<close>, stopped by the first item that raises.\<close>

fun tag_all :: "string \<Rightarrow> json \<Rightarrow> json list \<Rightarrow> error + json list" where
  "tag_all key v [] = Inr []"
| "tag_all key v (x # xs) =
     (case set_item x key v of
        Inl e \<Rightarrow> Inl e
      | Inr x' \<Rightarrow> (case tag_all key v xs of Inl e \<Rightarrow> Inl e | Inr xs' \<Rightarrow> Inr (x' # xs')))"

text \<open>
  The body of the \<open>try\<close> of a per-course loop: the sub-call, then the tagging of every
  record. It gives the records to add, or the exception the \<open>except\<close> clause catches.
\<close>

definition course_try ::
  "(json \<Rightarrow> 'w \<Rightarrow> (error + json) \<times> 'w) \<Rightarrow> json \<Rightarrow> 'w \<Rightarrow> (error + json list) \<times> 'w" where
  "course_try sub course_id w =
     (case sub course_id w of
        (Inl e, w') \<Rightarrow> (Inl e, w')
      | (Inr result, w') \<Rightarrow>
          (case py_iter result of
             Inl e \<Rightarrow> (Inl e, w')
           | Inr items \<Rightarrow>
               (case tag_all ''course_id'' course_id items of
                  Inl e \<Rightarrow> (Inl e, w')
                | Inr tagged \<Rightarrow> (Inr tagged, w'))))"

text \<open>
  The loop that \<open>extract_enrolments\<close>, \<open>extract_enrolment_methods\<close>, \<open>extract_grade_items\<close>
  and \<open>extract_grades\<close> share, the client method being \<open>sub\<close>: the four differ in that
  method and in the wording of the log lines only. \<open>acc\<close> is the list collected so far.
  A course that is not a \<open>dict\<close> has no \<open>get\<close>: the \<open>AttributeError\<close> is raised outside
  the \<open>try\<close> and leaves the function.
\<close>

fun fan_out ::
  "(json \<Rightarrow> 'w \<Rightarrow> (error + json) \<times> 'w) \<Rightarrow> json list \<Rightarrow> json list \<Rightarrow> 'w
     \<Rightarrow> (error + json list) \<times> 'w" where
  "fan_out sub [] acc w = (Inr acc, w)"
| "fan_out sub (course # rest) acc w =
     (case course of
        JDict c \<Rightarrow>
          (let course_id = dict_get c ''id'' JNull in
           if truthy course_id then
             (case course_try sub course_id w of
                (Inl e, w') \<Rightarrow> fan_out sub rest acc w'
              | (Inr tagged, w') \<Rightarrow> fan_out sub rest (acc @ tagged) w')
           else fan_out sub rest acc w)
      | _ \<Rightarrow> (Inl AttributeError, w))"

text \<open>
  The four per-course extractions, given the client and the course list pulled from the
  scheduler. The result is the list pushed for the load task; the value returned to the
  scheduler is its length.
\<close>

definition extract_enrolments ::
  "server \<Rightarrow> client \<Rightarrow> json list \<Rightarrow> world \<Rightarrow> (error + json list) \<times> world" where
  "extract_enrolments srv c courses w = fan_out (get_enrolled_users srv c) courses [] w"

definition extract_enrolment_methods ::
  "server \<Rightarrow> client \<Rightarrow> json list \<Rightarrow> world \<Rightarrow> (error + json list) \<times> world" where
  "extract_enrolment_methods srv c courses w = fan_out (get_enrolment_methods srv c) courses [] w"

definition extract_grade_items ::
  "server \<Rightarrow> client \<Rightarrow> json list \<Rightarrow> world \<Rightarrow> (error + json list) \<times> world" where
  "extract_grade_items srv c courses w = fan_out (get_course_grade_items srv c) courses [] w"

definition extract_grades ::
  "server \<Rightarrow> client \<Rightarrow> json list \<Rightarrow> world \<Rightarrow> (error + json list) \<times> world" where
  "extract_grades srv c courses w =
     fan_out (\<lambda>course_id. get_grades srv c course_id JNull) courses [] w"

text \<open>
  \<open>extract_completions\<close>: one sub-call for every enrolment that has a course and a user;
  the completion is tagged with both and appended.
\<close>

definition completion_try ::
  "(json \<Rightarrow> json \<Rightarrow> 'w \<Rightarrow> (error + json) \<times> 'w) \<Rightarrow> json \<Rightarrow> json \<Rightarrow> 'w \<Rightarrow> (error + json) \<times> 'w" where
  "completion_try sub course_id user_id w =
     (case sub course_id user_id w of
        (Inl e, w') \<Rightarrow> (Inl e, w')
      | (Inr completion, w') \<Rightarrow>
          (case set_item completion ''course_id'' course_id of
             Inl e \<Rightarrow> (Inl e, w')
           | Inr c1 \<Rightarrow>
               (case set_item c1 ''userid'' user_id of
                  Inl e \<Rightarrow> (Inl e, w')
                | Inr c2 \<Rightarrow> (Inr c2, w'))))"

fun completions_loop ::
  "(json \<Rightarrow> json \<Rightarrow> 'w \<Rightarrow> (error + json) \<times> 'w) \<Rightarrow> json list \<Rightarrow> json list \<Rightarrow> 'w
     \<Rightarrow> (error + json list) \<times> 'w" where
  "completions_loop sub [] acc w = (Inr acc, w)"
| "completions_loop sub (enrolment # rest) acc w =
     (case enrolment of
        JDict e \<Rightarrow>
          (let course_id = dict_get e ''course_id'' JNull;
               user_id = dict_get e ''id'' JNull in
           if truthy course_id \<and> truthy user_id then
             (case completion_try sub course_id user_id w of
                (Inl err, w') \<Rightarrow> completions_loop sub rest acc w'
              | (Inr completion, w') \<Rightarrow> completions_loop sub rest (acc @ [completion]) w')
           else completions_loop sub rest acc w)
      | _ \<Rightarrow> (Inl AttributeError, w))"

definition extract_completions ::
  "server \<Rightarrow> client \<Rightarrow> json list \<Rightarrow> world \<Rightarrow> (error + json list) \<times> world" where
  "extract_completions srv c enrolments w =
     completions_loop (get_course_completion srv c) enrolments [] w"

section \<open>Record preparation\<close>

text \<open>A record ready for the table \<open>moodle_raw\<close>: the \<open>dict\<close> that \<open>prepare_raw_record\<close> returns.\<close>

record raw_record =
  r_instance :: string
  r_entity :: string
  r_moodle_id :: json
  r_data_json :: string
  r_ts_extract :: string
  r_hash_content :: string

text \<open>
  \<open>prepare_raw_record\<close>. The clock is read once: \<open>now\<close> is the text
  \<open>datetime.utcnow().isoformat()\<close> gives at the call.
\<close>

definition prepare_raw_record :: "string \<Rightarrow> string \<Rightarrow> string \<Rightarrow> json \<Rightarrow> json \<Rightarrow> raw_record" where
  "prepare_raw_record now inst ent mid data =
     \<lparr>r_instance = inst,
      r_entity = ent,
      r_moodle_id = mid,
      r_data_json = dumps False data,
      r_ts_extract = now,
      r_hash_content = compute_hash data\<rparr>"

definition required_fields :: "(string \<times> string list) list" where
  "required_fields =
     [(''user'', [''id'', ''username'']),
      (''course'', [''id'', ''fullname'']),
      (''role'', [''id'', ''shortname'']),
      (''grade'', [''userid'', ''itemid'']),
      (''grade_item'', [''id'', ''itemname'']),
      (''completion'', [''userid'', ''completionstate''])]"

text \<open>\<open>validate_json_schema\<close>: the first required field that is missing raises.\<close>

fun first_missing :: "(string \<times> json) list \<Rightarrow> string list \<Rightarrow> string option" where
  "first_missing data [] = None"
| "first_missing data (f # fs) = (if \<not> has_key data f then Some f else first_missing data fs)"

definition validate_json_schema :: "(string \<times> json) list \<Rightarrow> string \<Rightarrow> error + bool" where
  "validate_json_schema data ent =
     (case map_of required_fields ent of
        None \<Rightarrow> Inr True
      | Some required \<Rightarrow>
          (case first_missing data required of
             None \<Rightarrow> Inr True
           | Some f \<Rightarrow> Inl (ValueError (''Missing required field '' @ [CHR 0x27] @ f @ [CHR 0x27]
                                 @ '' for entity '' @ [CHR 0x27] @ ent @ [CHR 0x27]))))"

definition MOODLE_INSTANCE :: string where
  "MOODLE_INSTANCE = ''moodle4''"

text \<open>
  The loop of \<open>load_raw_data\<close> that prepares the records. \<open>clock n\<close> is the n-th reading
  of the clock and \<open>n\<close> counts the readings made. The label is stripped of its trailing
  \<open>s\<close> characters. A failed schema validation is logged and has no other effect. An item
  that is not a \<open>dict\<close> has no \<open>get\<close>.
\<close>

fun prepare_records :: "(nat \<Rightarrow> string) \<Rightarrow> nat \<Rightarrow> string \<Rightarrow> json list \<Rightarrow> error + raw_record list" where
  "prepare_records clock n ent [] = Inr []"
| "prepare_records clock n ent (item # rest) =
     (case item of
        JDict d \<Rightarrow>
          (let moodle_id = py_or (dict_get d ''id'' JNull) (dict_get d ''course_id'' JNull);
               checked = validate_json_schema d (rstrip_chars ''s'' ent);
               r = prepare_raw_record (clock n) MOODLE_INSTANCE (rstrip_chars ''s'' ent) moodle_id item
           in case prepare_records clock (Suc n) ent rest of
                Inl e \<Rightarrow> Inl e
              | Inr records \<Rightarrow> Inr (r # records))
      | _ \<Rightarrow> Inl AttributeError)"

text \<open>The entity labels the load tasks of the DAG pass to \<open>load_raw_data\<close>.\<close>

definition dag_entities :: "string list" where
  "dag_entities = [''users'', ''courses'', ''roles'', ''enrolments'', ''enrolment_methods'',
                   ''grade_items'', ''grades'', ''completions'']"

section \<open>The raw table\<close>

text \<open>The key of the table: \<open>(instance, entity, moodle_id, ts_extract)\<close>.\<close>

definition row_key :: "raw_record \<Rightarrow> string \<times> string \<times> json \<times> string" where
  "row_key r = (r_instance r, r_entity r, r_moodle_id r, r_ts_extract r)"

text \<open>
  Modelled from the spec: the table \<open>moodle_raw\<close> and its unique key (the script that
  creates it, \<open>sql/01_create_raw.sql\<close>, is not among the sources), and what the database
  does with the statement \<open>INSERT ... ON CONFLICT (instance, entity, moodle_id, ts_extract)
  DO NOTHING\<close> of \<open>load_raw_data\<close>: a row whose key is in the table already is dropped
  silently, any other row is added. Two keys collide when their four columns are equal.
\<close>

definition insert_on_conflict_do_nothing :: "raw_record \<Rightarrow> raw_record list \<Rightarrow> raw_record list" where
  "insert_on_conflict_do_nothing r table =
     (if row_key r \<in> set (map row_key table) then table else table @ [r])"

text \<open>
  A connection: the table as committed and the table as the open transaction sees it.
\<close>

record connection =
  committed :: "raw_record list"
  pending :: "raw_record list"

definition get_conn :: "raw_record list \<Rightarrow> connection" where
  "get_conn table = \<lparr>committed = table, pending = table\<rparr>"

definition commit :: "connection \<Rightarrow> connection" where
  "commit conn = conn\<lparr>committed := pending conn\<rparr>"

definition rollback :: "connection \<Rightarrow> connection" where
  "rollback conn = conn\<lparr>pending := committed conn\<rparr>"

text \<open>
  The loop of \<open>cursor.execute\<close> calls. \<open>raises i\<close> tells whether the database raises an
  unexpected error on the i-th statement of the batch; the loop stops there.
\<close>

fun execute_all :: "(nat \<Rightarrow> bool) \<Rightarrow> nat \<Rightarrow> raw_record list \<Rightarrow> connection \<Rightarrow> error option \<times> connection" where
  "execute_all raises i [] conn = (None, conn)"
| "execute_all raises i (r # rs) conn =
     (if raises i then (Some DatabaseError, conn)
      else execute_all raises (Suc i) rs
             (conn\<lparr>pending := insert_on_conflict_do_nothing r (pending conn)\<rparr>))"

text \<open>
  The bulk insert of \<open>load_raw_data\<close>: every statement, then the commit; on an exception
  the rollback, and the exception is raised again. The result is the error or the number
  of records, and the table as committed when the connection is closed.
\<close>

definition bulk_insert :: "(nat \<Rightarrow> bool) \<Rightarrow> raw_record list \<Rightarrow> raw_record list \<Rightarrow> (error + nat) \<times> raw_record list" where
  "bulk_insert raises records table =
     (case execute_all raises 0 records (get_conn table) of
        (None, conn) \<Rightarrow> (Inr (length records), committed (commit conn))
      | (Some e, conn) \<Rightarrow> (Inl e, committed (rollback conn)))"

text \<open>
  \<open>load_raw_data\<close>, given the value pulled from the scheduler for the entity (\<open>JNull\<close> for
  \<open>None\<close>): nothing to load returns 0 and leaves the table alone.
\<close>

definition load_raw_data ::
  "(nat \<Rightarrow> string) \<Rightarrow> nat \<Rightarrow> (nat \<Rightarrow> bool) \<Rightarrow> string \<Rightarrow> json \<Rightarrow> raw_record list
     \<Rightarrow> (error + nat) \<times> raw_record list" where
  "load_raw_data clock n raises ent data table =
     (if \<not> truthy data then (Inr 0, table)
      else case py_iter data of
             Inl e \<Rightarrow> (Inl e, table)
           | Inr items \<Rightarrow>
               (case prepare_records clock n ent items of
                  Inl e \<Rightarrow> (Inl e, table)
                | Inr records \<Rightarrow> bulk_insert raises records table))"

text \<open>The table after every record of a batch has been inserted, in order.\<close>

definition insert_all :: "raw_record list \<Rightarrow> raw_record list \<Rightarrow> raw_record list" where
  "insert_all records table = fold insert_on_conflict_do_nothing records table"

section \<open>The configuration of several instances\<close>

record instance_config =
  cfg_url :: string
  cfg_token :: string
  cfg_instance :: string

text \<open>The split, trimmed and filtered entries of a comma-separated list.\<close>

definition csv_entries :: "string \<Rightarrow> string list" where
  "csv_entries s = map strip (filter (\<lambda>x. strip x \<noteq> []) (split_on CHR '','' s))"

text \<open>The loop over \<open>enumerate(zip(urls, tokens))\<close>, \<open>i\<close> being the index reached.\<close>

fun build_configs :: "nat \<Rightarrow> (string \<times> string) list \<Rightarrow> error + instance_config list" where
  "build_configs i [] = Inr []"
| "build_configs i ((u, t) # rest) =
     (if u = [] \<or> t = [] then Inl (ValueError (''Empty URL or token at position '' @ str_nat (i + 1)))
      else case build_configs (Suc i) rest of
             Inl e \<Rightarrow> Inl e
           | Inr configs \<Rightarrow>
               Inr (\<lparr>cfg_url = u, cfg_token = t, cfg_instance = ''moodle'' @ str_nat (i + 1)\<rparr> # configs))"

definition parse_moodle_config :: "string \<Rightarrow> string \<Rightarrow> error + instance_config list" where
  "parse_moodle_config urls_str tokens_str =
     (if urls_str = [] \<or> tokens_str = [] then Inl (ValueError ''Both URLs and tokens must be provided'')
      else
        let urls = csv_entries urls_str;
            tokens = csv_entries tokens_str
        in if length urls \<noteq> length tokens then
             Inl (ValueError (''Number of URLs ('' @ str_nat (length urls)
                    @ '') must match number of tokens ('' @ str_nat (length tokens) @ ''). ''
                    @ ''Ensure you have the same number of comma-separated URLs and tokens.''))
           else if urls = [] then
             Inl (ValueError ''At least one Moodle URL and token must be provided'')
           else build_configs 0 (zip urls tokens))"

section \<open>Sample inputs\<close>

text \<open>A client as the tests build it, and a world in which nothing has happened yet.\<close>

abbreviation sample_client :: client where
  "sample_client \<equiv> \<lparr>base_url = ''https://moodle.example.com'', token = ''token123'',
     rate_limit_delay = 1, timeout = 30, max_retries = 3\<rparr>"

abbreviation fresh_world :: world where
  "fresh_world \<equiv> \<lparr>sent = [], slept = []\<rparr>"

text \<open>
  A server whose second response carries an application error, and where every other
  response is a list of one record.
\<close>

abbreviation second_call_fails :: server where
  "second_call_fails \<equiv> (\<lambda>n.
     if n = 0 then Response 200 (Some (JList [JDict [(''id'', JInt 11)]]))
     else if n = 1 then Response 200 (Some (JDict [(''exception'', JStr ''x''), (''message'', JStr ''denied'')]))
     else Response 200 (Some (JList [JDict [(''id'', JInt 13)]])))"

text \<open>
  A server that answers the first attempt with status 503 and every later one with an
  application error in an HTTP-200 body.
\<close>

abbreviation error_after_retry :: server where
  "error_after_retry \<equiv> (\<lambda>n.
     if n = 0 then Response 503 None
     else Response 200 (Some (JDict [(''exception'', JStr ''x''), (''message'', JStr ''bad token'')])))"

text \<open>Two records of one load, with different keys.\<close>

abbreviation sample_row1 :: raw_record where
  "sample_row1 \<equiv> prepare_raw_record ''2024-01-01T02:00:00.000001'' ''moodle4'' ''user''
                     (JInt 1) (JDict [(''id'', JInt 1), (''username'', JStr ''a'')])"

abbreviation sample_row2 :: raw_record where
  "sample_row2 \<equiv> prepare_raw_record ''2024-01-01T02:00:00.000002'' ''moodle4'' ''user''
                     (JInt 2) (JDict [(''id'', JInt 2), (''username'', JStr ''b'')])"

section \<open>Properties of the URL validator\<close>

lemma startswith_nonempty: "startswith s p \<Longrightarrow> p \<noteq> [] \<Longrightarrow> s \<noteq> [] \<and> hd s = hd p"
  unfolding startswith_def by (cases s; cases p) auto

lemma lstrip_id: "s \<noteq> [] \<Longrightarrow> \<not> is_space (hd s) \<Longrightarrow> lstrip s = s"
  unfolding lstrip_def by (cases s) auto

lemma rstrip_id: "s \<noteq> [] \<Longrightarrow> \<not> is_space (last s) \<Longrightarrow> rstrip s = s"
  unfolding rstrip_def by (cases s rule: rev_cases) auto

lemma rstrip_chars_idem: "rstrip_chars cs (rstrip_chars cs s) = rstrip_chars cs s"
  unfolding rstrip_chars_def by (simp add: dropWhile_idem)

lemma take_map_eq: "take n s = p \<Longrightarrow> take n (map f s) = map f p"
  by (auto simp: take_map)

lemma take_shorter: "take n s = p \<Longrightarrow> m \<le> n \<Longrightarrow> take m s = take m p"
  by (metis min.absorb1 take_take)

lemma lower_https: "startswith s ''https://'' \<Longrightarrow> startswith (lower s) ''https://''"
proof -
  assume "startswith s ''https://''"
  then have "take (length ''https://'') s = ''https://''" by (simp only: startswith_def)
  then have "take (length ''https://'') (map lower_char s) = map lower_char ''https://''"
    by (rule take_map_eq)
  moreover have "map lower_char ''https://'' = ''https://''" by (simp add: lower_char_def)
  ultimately show ?thesis by (simp only: startswith_def lower_def)
qed

lemma lower_not_http: "startswith s ''https://'' \<Longrightarrow> \<not> startswith (lower s) ''http://''"
proof
  assume a: "startswith s ''https://''" and b: "startswith (lower s) ''http://''"
  from lower_https [OF a] have "take (length ''https://'') (lower s) = ''https://''"
    by (simp only: startswith_def)
  then have "take (length ''http://'') (lower s) = take (length ''http://'') ''https://''"
    by (rule take_shorter) simp
  moreover from b have "take (length ''http://'') (lower s) = ''http://''"
    by (simp only: startswith_def)
  ultimately show False by simp
qed

lemma validate_url_accepts:
  assumes "validate_url u = Inr v"
  shows "startswith v ''https://'' \<and> MIN_HTTPS_URL_LENGTH \<le> length v
         \<and> rstrip_chars ''/'' v = v"
  using assms unfolding validate_url_def Let_def
  by (auto split: if_splits simp: rstrip_chars_idem)

text \<open>
  Claim C10, as stated: whenever validation of \<open>u\<close> succeeds with \<open>v\<close>, validating \<open>v\<close>
  again returns \<open>v\<close>. It fails: the trailing slashes are removed after the surrounding
  whitespace, so whitespace that stood before them is left at the end of the result, and
  a second validation strips it; what is left may even be too short to be accepted.
\<close>

theorem validate_url_not_idempotent:
  "validate_url ''https://x.com /'' = Inr ''https://x.com ''
   \<and> validate_url ''https://x.com '' = Inr ''https://x.com''
   \<and> validate_url ''https://x.com '' \<noteq> Inr ''https://x.com ''
   \<and> validate_url ''https://a.c /'' = Inr ''https://a.c ''
   \<and> validate_url ''https://a.c '' = Inl (ValueError ''Invalid Moodle URL format: https://a.c'')"
  by code_simp

text \<open>
  Claim C10, amended: whenever validation of \<open>u\<close> succeeds with a result \<open>v\<close> that does
  not end in whitespace, validating \<open>v\<close> again succeeds and returns \<open>v\<close> unchanged.
\<close>

theorem validate_url_idempotent:
  assumes "validate_url u = Inr v" and "\<not> is_space (last v)"
  shows "validate_url v = Inr v"
proof -
  from validate_url_accepts [OF assms(1)]
  have sw: "startswith v ''https://''" and len: "MIN_HTTPS_URL_LENGTH \<le> length v"
    and rs: "rstrip_chars ''/'' v = v" by simp_all
  from startswith_nonempty [OF sw] have ne: "v \<noteq> []" and h: "hd v = CHR ''h''" by simp_all
  have "\<not> is_space (hd v)" by (simp add: h is_space_def)
  then have "lstrip v = v" using ne by (rule_tac lstrip_id)
  then have st: "strip v = v" using rstrip_id [OF ne assms(2)] by (simp add: strip_def)
  show ?thesis
    unfolding validate_url_def Let_def st
    using ne lower_https [OF sw] lower_not_http [OF sw] rs sw len by simp
qed

text \<open>The amended claim C10 at the input \<open>x.com/\<close>.\<close>

theorem validate_url_idempotent_witness:
  "validate_url ''x.com/'' = Inr ''https://x.com'' \<and> \<not> is_space (last ''https://x.com'')
   \<and> validate_url ''https://x.com'' = Inr ''https://x.com''"
proof -
  have a: "validate_url ''x.com/'' = Inr ''https://x.com''" by code_simp
  have b: "\<not> is_space (last ''https://x.com'')" by code_simp
  from validate_url_idempotent [OF a b] a b show ?thesis by simp
qed

section \<open>Properties of the content hash\<close>

lemma hex_digit_chars: "d < 16 \<Longrightarrow> hex_digit d \<in> set ''0123456789abcdef''"
proof -
  have "list_all (\<lambda>d. hex_digit d \<in> set ''0123456789abcdef'') [0..<16]" by code_simp
  moreover assume "d < 16"
  ultimately show ?thesis by (simp add: list_all_iff)
qed

lemma hex2_chars: "set (hex2 n) \<subseteq> set ''0123456789abcdef''"
  unfolding hex2_def using hex_digit_chars [of "(n div 16) mod 16"] hex_digit_chars [of "n mod 16"]
  by simp

lemma hexdigest_length: "length (hexdigest bs) = 2 * length bs"
  unfolding hexdigest_def by (induction bs) (auto simp: hex2_def)

lemma hexdigest_chars: "set (hexdigest bs) \<subseteq> set ''0123456789abcdef''"
  unfolding hexdigest_def using hex2_chars by (induction bs) auto

lemma md5_digest_length: "length (md5_digest m) = 16"
  unfolding md5_digest_def by (simp add: bytes_le_def split: prod.split)

lemma compute_hash_shape:
  "length (compute_hash d) = 32 \<and> set (compute_hash d) \<subseteq> set ''0123456789abcdef''"
  unfolding compute_hash_def Let_def using hexdigest_chars
  by (simp add: hexdigest_length md5_digest_length)

lemma insort_key_map:
  assumes "\<And>x. k' (g x) = k x"
  shows "map g (insort_key k x xs) = insort_key k' (g x) (map g xs)"
  by (induction xs) (auto simp: assms)

lemma sort_key_map:
  assumes "\<And>x. k' (g x) = k x"
  shows "map g (sort_key k xs) = sort_key k' (map g xs)"
  by (induction xs) (simp_all add: insort_key_map [of k' g k, OF assms])

lemma sorted_key_unique:
  assumes "sorted (map k xs)" and "distinct (map k xs)"
    and "sorted (map k ys)" and "distinct (map k ys)" and "set xs = set ys"
  shows "xs = ys"
proof -
  have "set (map k xs) = set (map k ys)" using assms(5) by simp
  with assms(1-4) have "map k xs = map k ys" by (intro sorted_distinct_set_unique)
  moreover have "inj_on k (set xs \<union> set ys)" using assms(2,5) by (simp add: distinct_map)
  ultimately show ?thesis by (rule map_inj_on)
qed

lemma sort_key_unique:
  assumes "distinct (map k xs)" and "distinct (map k ys)" and "set xs = set ys"
  shows "sort_key k xs = sort_key k ys"
proof (rule sorted_key_unique [where k = k])
  show "sorted (map k (sort_key k xs))" by (rule sorted_sort_key)
  show "sorted (map k (sort_key k ys))" by (rule sorted_sort_key)
  show "distinct (map k (sort_key k xs))" using assms(1) by (simp add: distinct_map)
  show "distinct (map k (sort_key k ys))" using assms(2) by (simp add: distinct_map)
  show "set (sort_key k xs) = set (sort_key k ys)" using assms(3) by simp
qed

lemma json_equiv_JList:
  "json_equiv (JList xs) y \<Longrightarrow> \<exists>ys. y = JList ys \<and> length xs = length ys
     \<and> (\<forall>i < length xs. json_equiv (xs ! i) (ys ! i))"
proof (cases y)
  case (JList ys)
  assume "json_equiv (JList xs) y"
  with JList have len: "length xs = length ys"
    and all: "\<forall>p \<in> set (zip xs ys). json_equiv (fst p) (snd p)" by simp_all
  have "json_equiv (xs ! i) (ys ! i)" if "i < length xs" for i
  proof -
    from that len have "(xs ! i, ys ! i) \<in> set (zip xs ys)"
      by (auto simp: set_zip)
    with all show ?thesis by fastforce
  qed
  with JList len show ?thesis by simp
qed simp_all

lemma json_equiv_JDict:
  "json_equiv (JDict a) y \<Longrightarrow> \<exists>b. y = JDict b \<and> set (map fst a) = set (map fst b)
     \<and> (\<forall>kv \<in> set a. \<forall>kv' \<in> set b. fst kv = fst kv' \<longrightarrow> json_equiv (snd kv) (snd kv'))"
  by (cases y) simp_all

lemma dumps_sorted_equiv:
  "wf_json x \<Longrightarrow> wf_json y \<Longrightarrow> json_equiv x y \<Longrightarrow> dumps True x = dumps True y"
proof (induction x arbitrary: y)
  case (JList xs)
  from json_equiv_JList [OF JList.prems(3)] obtain ys where y: "y = JList ys"
    and len: "length xs = length ys"
    and eq: "\<forall>i < length xs. json_equiv (xs ! i) (ys ! i)" by blast
  have "map (dumps True) xs = map (dumps True) ys"
  proof (rule nth_equalityI)
    show "length (map (dumps True) xs) = length (map (dumps True) ys)" using len by simp
  next
    fix i assume "i < length (map (dumps True) xs)"
    then have i: "i < length xs" "i < length ys" using len by simp_all
    have "wf_json (xs ! i)" "wf_json (ys ! i)" using JList.prems(1,2) i y by simp_all
    moreover have "json_equiv (xs ! i) (ys ! i)" using eq i by simp
    ultimately have "dumps True (xs ! i) = dumps True (ys ! i)"
      using JList.IH [of "xs ! i" "ys ! i"] i by simp
    then show "map (dumps True) xs ! i = map (dumps True) ys ! i" using i by simp
  qed
  then show ?case by (simp add: y)
next
  case (JDict a)
  from json_equiv_JDict [OF JDict.prems(3)] obtain b where y: "y = JDict b"
    and keys: "set (map fst a) = set (map fst b)"
    and eq: "\<forall>kv \<in> set a. \<forall>kv' \<in> set b. fst kv = fst kv' \<longrightarrow> json_equiv (snd kv) (snd kv')"
    by blast
  from JDict.prems(1) have da: "distinct (map fst a)" and wa: "\<forall>kv \<in> set a. wf_json (snd kv)"
    by simp_all
  from JDict.prems(2) y have db: "distinct (map fst b)" and wb: "\<forall>kv \<in> set b. wf_json (snd kv)"
    by simp_all
  define g where "g = (\<lambda>kv :: string \<times> json. (fst kv, dumps True (snd kv)))"
  have same: "g kv = g kv'" if "kv \<in> set a" and "kv' \<in> set b" and "fst kv = fst kv'" for kv kv'
  proof -
    have "snd kv \<in> Basic_BNFs.snds kv" by (cases kv) simp
    moreover have "json_equiv (snd kv) (snd kv')" using eq that by blast
    ultimately have "dumps True (snd kv) = dumps True (snd kv')"
      using JDict.IH [of kv "snd kv" "snd kv'"] that wa wb by simp
    with that(3) show ?thesis by (simp add: g_def)
  qed
  from keys have keys': "fst ` set a = fst ` set b" by simp
  have "set (map g a) = set (map g b)"
  proof (intro equalityI subsetI)
    fix p assume "p \<in> set (map g a)"
    then obtain kv where kv: "kv \<in> set a" "p = g kv" by auto
    from kv(1) have "fst kv \<in> fst ` set a" by (rule imageI)
    then have "fst kv \<in> fst ` set b" by (simp only: keys')
    then obtain kv' where kv': "kv' \<in> set b" "fst kv = fst kv'" by (rule imageE)
    from same [OF kv(1) kv'] kv(2) kv'(1) show "p \<in> set (map g b)" by simp
  next
    fix p assume "p \<in> set (map g b)"
    then obtain kv' where kv': "kv' \<in> set b" "p = g kv'" by auto
    from kv'(1) have "fst kv' \<in> fst ` set b" by (rule imageI)
    then have "fst kv' \<in> fst ` set a" by (simp only: keys')
    then obtain kv where kv: "kv \<in> set a" "fst kv' = fst kv" by (rule imageE)
    from same [OF kv(1) kv'(1) kv(2) [symmetric]] kv'(2) have "p = g kv" by simp
    with kv(1) show "p \<in> set (map g a)" by simp
  qed
  moreover have "fst \<circ> g = fst" by (simp add: g_def fun_eq_iff)
  then have "distinct (map fst (map g a))" "distinct (map fst (map g b))"
    using da db by simp_all
  ultimately have "sort_key fst (map g a) = sort_key fst (map g b)"
    by (intro sort_key_unique)
  moreover have "map g (sort_key fst l) = sort_key fst (map g l)" for l
    by (rule sort_key_map) (simp add: g_def)
  ultimately have *: "map g (sort_key fst a) = map g (sort_key fst b)" by simp
  define F where "F = (\<lambda>kv :: string \<times> json. encode_basestring_ascii (fst kv) @ '': '' @ dumps True (snd kv))"
  define h where "h = (\<lambda>p :: string \<times> string. encode_basestring_ascii (fst p) @ '': '' @ snd p)"
  have Fh: "map F l = map h (map g l)" for l
    by (simp add: F_def h_def g_def comp_def)
  have "map F (sort_key fst a) = map h (map g (sort_key fst a))" by (rule Fh)
  also have "\<dots> = map h (map g (sort_key fst b))" by (simp only: *)
  also have "\<dots> = map F (sort_key fst b)" by (rule Fh [symmetric])
  finally have "map F (sort_key fst a) = map F (sort_key fst b)" .
  then show ?case unfolding y F_def by simp
qed simp_all

text \<open>
  Claim C1: for JSON values \<open>d1\<close> and \<open>d2\<close> that are equal but for the order of their keys
  at every nesting level, \<open>compute_hash d1\<close> equals \<open>compute_hash d2\<close>; and the hash of every
  value is a digest of 32 lower-case hexadecimal digits. \<open>compute_hash\<close> is a function of
  its argument alone, so the same input gives the same digest.
\<close>

theorem compute_hash_key_order_independent:
  "(wf_json d1 \<and> wf_json d2 \<and> json_equiv d1 d2 \<longrightarrow> compute_hash d1 = compute_hash d2)
   \<and> length (compute_hash d1) = 32
   \<and> set (compute_hash d1) \<subseteq> set ''0123456789abcdef''"
  using dumps_sorted_equiv [of d1 d2] compute_hash_shape [of d1]
  by (auto simp: compute_hash_def)

text \<open>
  Claim C1 at two payloads that differ in the order of their keys, at the top and inside
  a nested list.
\<close>

theorem compute_hash_key_order_independent_witness:
  "wf_json (JDict [(''id'', JInt 1), (''tags'', JList [JDict [(''a'', JNull), (''b'', JStr ''x'')]])])
   \<and> wf_json (JDict [(''tags'', JList [JDict [(''b'', JStr ''x''), (''a'', JNull)]]), (''id'', JInt 1)])
   \<and> json_equiv (JDict [(''id'', JInt 1), (''tags'', JList [JDict [(''a'', JNull), (''b'', JStr ''x'')]])])
                  (JDict [(''tags'', JList [JDict [(''b'', JStr ''x''), (''a'', JNull)]]), (''id'', JInt 1)])
   \<and> compute_hash (JDict [(''id'', JInt 1), (''tags'', JList [JDict [(''a'', JNull), (''b'', JStr ''x'')]])])
       = compute_hash (JDict [(''tags'', JList [JDict [(''b'', JStr ''x''), (''a'', JNull)]]), (''id'', JInt 1)])"
proof -
  let ?d1 = "JDict [(''id'', JInt 1), (''tags'', JList [JDict [(''a'', JNull), (''b'', JStr ''x'')]])]"
  let ?d2 = "JDict [(''tags'', JList [JDict [(''b'', JStr ''x''), (''a'', JNull)]]), (''id'', JInt 1)]"
  have w1: "wf_json ?d1" by simp
  have w2: "wf_json ?d2" by simp
  have e: "json_equiv ?d1 ?d2" by (simp add: insert_commute)
  from compute_hash_key_order_independent [of ?d1 ?d2] w1 w2 e
  have "compute_hash ?d1 = compute_hash ?d2" by blast
  with w1 w2 e show ?thesis by blast
qed

section \<open>Properties of the API executor\<close>

lemma new_client_sample: "new_client ''https://moodle.example.com'' ''token123'' = Inr sample_client"
  by (simp add: new_client_def MoodleAPIClient_init_def validate_url_def strip_def lstrip_def rstrip_def
      is_space_def startswith_def lower_def lower_char_def rstrip_chars_def MIN_HTTPS_URL_LENGTH_def)

lemma session_post_slept: "slept (snd (session_post srv n req w)) = slept w"
  by (induction n arbitrary: w) (auto simp: Let_def split: attempt.splits)

lemma call_api_slept:
  "slept (snd (call_api srv c f ps w)) =
     (case fst (call_api srv c f ps w) of
        Inl e \<Rightarrow> slept w
      | Inr r \<Rightarrow> slept w @ [rate_limit_delay c])"
proof -
  define url where "url = base_url c @ ''/webservice/rest/server.php''"
  define payload where "payload = dict_update
                      [(''wstoken'', JStr (token c)),
                       (''wsfunction'', JStr f),
                       (''moodlewsrestformat'', JStr ''json'')] ps"
  obtain r w1 where sp: "session_post srv (max_retries c) (url, payload) w = (r, w1)"
    by (cases "session_post srv (max_retries c) (url, payload) w")
  from session_post_slept [of srv "max_retries c" "(url, payload)" w] sp
  have "slept w1 = slept w" by simp
  then show ?thesis
    unfolding call_api_def Let_def url_def [symmetric] payload_def [symmetric] sp
    by (auto split: sum.splits option.splits json.splits prod.splits)
qed

lemma session_post_200:
  "srv (length (sent w)) = Response 200 body \<Longrightarrow>
     session_post srv n req w = (Inr (200, body), w\<lparr>sent := sent w @ [req]\<rparr>)"
  by (cases n) (simp_all add: status_forcelist_def)

lemma session_post_last:
  "session_post srv n req w = (Inr (st, body), w1) \<Longrightarrow>
     sent w1 \<noteq> [] \<and> last (sent w1) = req \<and> srv (length (sent w1) - 1) = Response st body"
proof (induction n arbitrary: w)
  case 0
  then show ?case
    by (auto simp: Let_def split: attempt.splits if_splits)
next
  case (Suc n)
  show ?case
  proof (cases "srv (length (sent w))")
    case NetworkFailure
    with Suc.prems have "session_post srv n req (w\<lparr>sent := sent w @ [req]\<rparr>) = (Inr (st, body), w1)"
      by (simp add: Let_def)
    then show ?thesis by (rule Suc.IH)
  next
    case (Response st' body')
    show ?thesis
    proof (cases "st' \<in> set status_forcelist")
      case True
      with Response Suc.prems
      have "session_post srv n req (w\<lparr>sent := sent w @ [req]\<rparr>) = (Inr (st, body), w1)"
        by (simp add: Let_def)
      then show ?thesis by (rule Suc.IH)
    next
      case False
      with Response Suc.prems show ?thesis by (auto simp: Let_def)
    qed
  qed
qed

text \<open>
  Claim C4, as stated: the rate-limit delay is performed after every completed call, the
  call that ends in an application-level error of an HTTP-200 body included. It fails:
  the error is raised before the \<open>time.sleep\<close> is reached.
\<close>

theorem call_api_error_body_no_delay:
  "fst (call_api (\<lambda>n. Response 200 (Some (JDict [(''exception'', JStr ''x''), (''message'', JStr ''bad token'')])))
         sample_client ''core_user_get_users'' [] fresh_world)
     = Inl (PyException ''Moodle API Error: bad token'')
   \<and> slept (snd (call_api (\<lambda>n. Response 200 (Some (JDict [(''exception'', JStr ''x''), (''message'', JStr ''bad token'')])))
         sample_client ''core_user_get_users'' [] fresh_world)) = []"
  by (simp add: call_api_def numeral_3_eq_3 dict_update_def has_key_def dict_get_def status_forcelist_def)

text \<open>
  Claim C4, amended: every call that returns a result has performed the fixed delay of
  the client once, last, before control returns; a call that ends in an error, the
  application-level error of an HTTP-200 body included, has performed no delay. The
  delay of a client built with the default arguments is 1.
\<close>

theorem call_api_delay_after_result:
  "(case fst (call_api srv c f ps w) of
      Inr r \<Rightarrow> slept (snd (call_api srv c f ps w)) = slept w @ [rate_limit_delay c]
    | Inl e \<Rightarrow> slept (snd (call_api srv c f ps w)) = slept w)
   \<and> (new_client url tok = Inr c \<longrightarrow> rate_limit_delay c = 1)"
  using call_api_slept [of srv c f ps w]
  by (auto simp: new_client_def MoodleAPIClient_init_def split: sum.splits)

text \<open>The amended claim C4 at a call that returns a list of one course.\<close>

theorem call_api_delay_after_result_witness:
  "new_client ''https://moodle.example.com'' ''token123'' = Inr sample_client
   \<and> fst (call_api (\<lambda>n. Response 200 (Some (JList [JDict [(''id'', JInt 1)]])))
         sample_client ''core_course_get_courses'' [] fresh_world) = Inr (JList [JDict [(''id'', JInt 1)]])
   \<and> slept (snd (call_api (\<lambda>n. Response 200 (Some (JList [JDict [(''id'', JInt 1)]])))
         sample_client ''core_course_get_courses'' [] fresh_world)) = [1]"
proof -
  let ?srv = "\<lambda>n :: nat. Response 200 (Some (JList [JDict [(''id'', JInt 1)]]))"
  have r: "fst (call_api ?srv sample_client ''core_course_get_courses'' [] fresh_world)
           = Inr (JList [JDict [(''id'', JInt 1)]])"
    by (simp add: call_api_def numeral_3_eq_3 dict_update_def status_forcelist_def)
  from call_api_delay_after_result [of ?srv sample_client "''core_course_get_courses''" "[]" fresh_world
        "''https://moodle.example.com''" "''token123''"] r new_client_sample
  show ?thesis by simp
qed

text \<open>
  Claim C5: whenever the post of a call returns an HTTP-200 response whose body decodes
  to a mapping with an \<open>exception\<close> key, be it the answer to the first attempt or to one
  the transport sent again, the call ends in the application-level error, whose text
  carries the remote \<open>message\<close> (\<open>Unknown error\<close> when there is none). It is this error
  and not a transport error that reaches the caller, and no value is returned. The world
  after the call is the world after the post: the response that brought the body
  answered the last request sent, so nothing is sent again on account of the error, and
  no delay is made.
\<close>

theorem call_api_exception_body:
  assumes "session_post srv (max_retries c)
             (base_url c @ ''/webservice/rest/server.php'',
              dict_update [(''wstoken'', JStr (token c)),
                           (''wsfunction'', JStr f),
                           (''moodlewsrestformat'', JStr ''json'')] ps) w
           = (Inr (200, Some (JDict d)), w1)"
    and "has_key d ''exception''"
  shows "call_api srv c f ps w
           = (Inl (PyException (''Moodle API Error: ''
                     @ py_str (dict_get d ''message'' (JStr ''Unknown error'')))), w1)
         \<and> (\<forall>m. map_of d ''message'' = Some (JStr m) \<longrightarrow>
               fst (call_api srv c f ps w) = Inl (PyException (''Moodle API Error: '' @ m)))
         \<and> sent w1 \<noteq> []
         \<and> srv (length (sent w1) - 1) = Response 200 (Some (JDict d))
         \<and> slept w1 = slept w"
proof -
  have "call_api srv c f ps w
           = (Inl (PyException (''Moodle API Error: ''
                     @ py_str (dict_get d ''message'' (JStr ''Unknown error'')))), w1)"
    using assms by (simp add: call_api_def Let_def)
  moreover have "\<forall>m. map_of d ''message'' = Some (JStr m) \<longrightarrow>
               fst (call_api srv c f ps w) = Inl (PyException (''Moodle API Error: '' @ m))"
    using assms by (simp add: call_api_def Let_def dict_get_def)
  moreover have "sent w1 \<noteq> [] \<and> srv (length (sent w1) - 1) = Response 200 (Some (JDict d))"
    using session_post_last [OF assms(1)] by simp
  moreover have "slept w1 = slept w"
  proof -
    have "slept (snd (Inr (200 :: nat, Some (JDict d)) :: request_error + nat \<times> json option, w1)) = slept w"
      unfolding assms(1) [symmetric] by (rule session_post_slept)
    then show ?thesis by simp
  qed
  ultimately show ?thesis by simp
qed

text \<open>
  Claim C5 at the body \<open>{"exception": "x", "message": "bad token"}\<close>, brought by the second
  attempt after a first one answered with status 503.
\<close>

theorem call_api_exception_body_witness:
  "has_key [(''exception'', JStr ''x''), (''message'', JStr ''bad token'')] ''exception''
   \<and> fst (session_post error_after_retry (max_retries sample_client)
             (base_url sample_client @ ''/webservice/rest/server.php'',
              dict_update [(''wstoken'', JStr (token sample_client)),
                           (''wsfunction'', JStr ''core_user_get_users''),
                           (''moodlewsrestformat'', JStr ''json'')] []) fresh_world)
       = Inr (200, Some (JDict [(''exception'', JStr ''x''), (''message'', JStr ''bad token'')]))
   \<and> fst (call_api error_after_retry sample_client ''core_user_get_users'' [] fresh_world)
       = Inl (PyException ''Moodle API Error: bad token'')
   \<and> length (sent (snd (call_api error_after_retry sample_client ''core_user_get_users'' [] fresh_world))) = 2
   \<and> slept (snd (call_api error_after_retry sample_client ''core_user_get_users'' [] fresh_world)) = []"
proof -
  let ?d = "[(''exception'', JStr ''x''), (''message'', JStr ''bad token'')]"
  let ?req = "(base_url sample_client @ ''/webservice/rest/server.php'',
              dict_update [(''wstoken'', JStr (token sample_client)),
                           (''wsfunction'', JStr ''core_user_get_users''),
                           (''moodlewsrestformat'', JStr ''json'')] [])"
  have k: "has_key ?d ''exception''" by (simp add: has_key_def)
  have p: "session_post error_after_retry (max_retries sample_client) ?req fresh_world
             = (Inr (200, Some (JDict ?d)), \<lparr>sent = [?req, ?req], slept = []\<rparr>)"
    by (simp add: numeral_3_eq_3 status_forcelist_def dict_update_def)
  from call_api_exception_body [OF p k] k p
  show ?thesis by (simp add: dict_get_def)
qed

section \<open>Properties of the entity methods\<close>

text \<open>
  \<open>_call_api\<close> returns a list whatever the body was, so the test
  \<open>isinstance(result, dict)\<close> of the entity methods never holds.
\<close>

lemma call_api_returns_list:
  "fst (call_api srv c f ps w) = Inr r \<Longrightarrow> \<exists>xs. r = JList xs"
  unfolding call_api_def Let_def
  by (auto split: sum.splits option.splits json.splits prod.splits if_splits)

lemma get_users_never_unwraps:
  "srv (length (sent w)) = Response 200 (Some (JDict d)) \<Longrightarrow> \<not> has_key d ''exception'' \<Longrightarrow>
     fst (get_users srv c criteria w) = Inr (JList [JDict d])"
  by (simp add: get_users_def call_api_def Let_def session_post_200 unwrap_def)

text \<open>
  Claim C6 says that an object wrapping the collection is unwrapped under \<open>users\<close>,
  \<open>usergrades\<close> or \<open>tables\<close>. The code does not do so: for the body
  \<open>{"users": [{"id": 1, "username": "testuser"}]}\<close> the method returns the wrapping object
  in a list of one element, and likewise for the other two methods.
\<close>

theorem get_users_returns_wrapping_object:
  "fst (get_users (\<lambda>n. Response 200 (Some (JDict [(''users'', JList [JDict [(''id'', JInt 1), (''username'', JStr ''testuser'')]])])))
         sample_client [] fresh_world)
     = Inr (JList [JDict [(''users'', JList [JDict [(''id'', JInt 1), (''username'', JStr ''testuser'')]])]])
   \<and> fst (get_course_grade_items (\<lambda>n. Response 200 (Some (JDict [(''usergrades'', JList [JDict [(''userid'', JInt 7)]])])))
         sample_client (JInt 42) fresh_world)
     = Inr (JList [JDict [(''usergrades'', JList [JDict [(''userid'', JInt 7)]])]])
   \<and> fst (get_grades (\<lambda>n. Response 200 (Some (JDict [(''tables'', JList [JDict [(''userid'', JInt 7)]])])))
         sample_client (JInt 42) JNull fresh_world)
     = Inr (JList [JDict [(''tables'', JList [JDict [(''userid'', JInt 7)]])]])"
  by (simp add: get_users_def get_course_grade_items_def get_grades_def call_api_def
        session_post_200 unwrap_def has_key_def dict_update_def)

section \<open>Properties of the fan-out extractions\<close>

lemma course_try_snd: "snd (course_try sub cid w) = snd (sub cid w)"
  unfolding course_try_def by (auto split: prod.splits sum.splits)

lemma tag_all_dicts:
  "tag_all key v (map JDict recs) = Inr (map (\<lambda>r. JDict (dict_set r key v)) recs)"
  by (induction recs) simp_all

lemma course_try_raises:
  "fst (sub cid w) = Inl e \<Longrightarrow> fst (course_try sub cid w) = Inl e"
  unfolding course_try_def by (auto split: prod.splits sum.splits)

lemma course_try_records:
  "fst (sub cid w) = Inr (JList (map JDict recs)) \<Longrightarrow>
     fst (course_try sub cid w) = Inr (map (\<lambda>r. JDict (dict_set r ''course_id'' cid)) recs)"
  unfolding course_try_def by (auto simp: tag_all_dicts split: prod.splits sum.splits)

lemma fan_out_acc:
  "fan_out sub cs acc w =
     (case fan_out sub cs [] w of
        (Inl e, w') \<Rightarrow> (Inl e, w')
      | (Inr xs, w') \<Rightarrow> (Inr (acc @ xs), w'))"
proof (induction cs arbitrary: acc w)
  case Nil
  show ?case by simp
next
  case (Cons course rest)
  show ?case
  proof (cases course)
    case (JDict c)
    show ?thesis
    proof (cases "truthy (dict_get c ''id'' JNull)")
      case False
      with JDict Cons.IH [of acc w] show ?thesis by simp
    next
      case True
      obtain r w' where ct: "course_try sub (dict_get c ''id'' JNull) w = (r, w')"
        by (cases "course_try sub (dict_get c ''id'' JNull) w")
      show ?thesis
      proof (cases r)
        case (Inl e)
        with JDict True ct Cons.IH [of acc w'] show ?thesis by simp
      next
        case (Inr tagged)
        with JDict True ct Cons.IH [of "acc @ tagged" w'] Cons.IH [of tagged w']
        show ?thesis by (auto split: prod.splits sum.splits)
      qed
    qed
  qed simp_all
qed

lemma fan_out_total:
  "\<forall>x \<in> set cs. is_dict x \<Longrightarrow> \<exists>xs w'. fan_out sub cs acc w = (Inr xs, w')"
proof (induction cs arbitrary: acc w)
  case Nil
  show ?case by simp
next
  case (Cons course rest)
  from Cons.prems obtain c where c: "course = JDict c" by (cases course) auto
  from Cons.prems have rest: "\<forall>x \<in> set rest. is_dict x" by simp
  show ?case
    using c Cons.IH [OF rest]
    by (auto simp: Let_def split: prod.splits sum.splits)
qed

lemma fan_out_append:
  "fan_out sub (cs1 @ cs2) acc w =
     (case fan_out sub cs1 acc w of
        (Inl e, w1) \<Rightarrow> (Inl e, w1)
      | (Inr a, w1) \<Rightarrow> fan_out sub cs2 a w1)"
proof (induction cs1 arbitrary: acc w)
  case Nil
  show ?case by simp
next
  case (Cons course rest)
  show ?case
    by (cases course) (auto simp: Cons.IH Let_def split: prod.splits sum.splits)
qed

lemma fan_out_partial_failure:
  assumes dicts: "\<forall>x \<in> set cs1 \<union> set cs2. is_dict x"
    and cid: "truthy (dict_get c ''id'' JNull)"
  shows "\<exists>a1 w1 a2 w3.
      fan_out sub cs1 [] w = (Inr a1, w1)
    \<and> fan_out sub cs2 [] (snd (sub (dict_get c ''id'' JNull) w1)) = (Inr a2, w3)
    \<and> (\<exists>xs. fan_out sub (cs1 @ JDict c # cs2) [] w = (Inr xs, w3))
    \<and> (\<forall>e. fst (sub (dict_get c ''id'' JNull) w1) = Inl e \<longrightarrow>
          fan_out sub (cs1 @ JDict c # cs2) [] w = (Inr (a1 @ a2), w3))
    \<and> (\<forall>recs. fst (sub (dict_get c ''id'' JNull) w1) = Inr (JList (map JDict recs)) \<longrightarrow>
          fan_out sub (cs1 @ JDict c # cs2) [] w
            = (Inr (a1 @ map (\<lambda>r. JDict (dict_set r ''course_id'' (dict_get c ''id'' JNull))) recs @ a2), w3))"
proof -
  let ?cid = "dict_get c ''id'' JNull"
  from dicts have d1: "\<forall>x \<in> set cs1. is_dict x" and d2: "\<forall>x \<in> set cs2. is_dict x" by simp_all
  from fan_out_total [OF d1, of sub "[]" w]
  obtain a1 w1 where r1: "fan_out sub cs1 [] w = (Inr a1, w1)" by blast
  let ?w2 = "snd (sub ?cid w1)"
  from fan_out_total [OF d2, of sub "[]" ?w2]
  obtain a2 w3 where r2: "fan_out sub cs2 [] ?w2 = (Inr a2, w3)" by blast
  obtain r where ct: "course_try sub ?cid w1 = (r, ?w2)"
    using course_try_snd [of sub ?cid w1] by (cases "course_try sub ?cid w1") simp
  have step: "fan_out sub (cs1 @ JDict c # cs2) [] w =
                (case r of Inl e \<Rightarrow> (Inr (a1 @ a2), w3) | Inr tagged \<Rightarrow> (Inr (a1 @ tagged @ a2), w3))"
  proof (cases r)
    case (Inl e)
    have "fan_out sub (cs1 @ JDict c # cs2) [] w = fan_out sub cs2 a1 ?w2"
      using r1 ct cid Inl by (simp add: fan_out_append)
    also have "\<dots> = (Inr (a1 @ a2), w3)" using r2 by (subst fan_out_acc) simp
    finally show ?thesis using Inl by simp
  next
    case (Inr tagged)
    have "fan_out sub (cs1 @ JDict c # cs2) [] w = fan_out sub cs2 (a1 @ tagged) ?w2"
      using r1 ct cid Inr by (simp add: fan_out_append)
    also have "\<dots> = (Inr ((a1 @ tagged) @ a2), w3)" using r2 by (subst fan_out_acc) simp
    finally show ?thesis using Inr by simp
  qed
  have "\<exists>xs. fan_out sub (cs1 @ JDict c # cs2) [] w = (Inr xs, w3)"
    using step by (cases r) simp_all
  moreover have "fan_out sub (cs1 @ JDict c # cs2) [] w = (Inr (a1 @ a2), w3)"
    if "fst (sub ?cid w1) = Inl e" for e
    using course_try_raises [of sub ?cid w1 e] that ct step by simp
  moreover have "fan_out sub (cs1 @ JDict c # cs2) [] w
            = (Inr (a1 @ map (\<lambda>r. JDict (dict_set r ''course_id'' ?cid)) recs @ a2), w3)"
    if "fst (sub ?cid w1) = Inr (JList (map JDict recs))" for recs
    using course_try_records [of sub ?cid w1 recs] that ct step by simp
  ultimately show ?thesis using r1 r2 by blast
qed

lemma completion_try_snd: "snd (completion_try sub cid uid w) = snd (sub cid uid w)"
  unfolding completion_try_def by (auto split: prod.splits sum.splits)

lemma completion_try_raises:
  "fst (sub cid uid w) = Inl e \<Longrightarrow> fst (completion_try sub cid uid w) = Inl e"
  unfolding completion_try_def by (auto split: prod.splits sum.splits)

lemma completion_try_record:
  "fst (sub cid uid w) = Inr (JDict d) \<Longrightarrow>
     fst (completion_try sub cid uid w)
       = Inr (JDict (dict_set (dict_set d ''course_id'' cid) ''userid'' uid))"
  unfolding completion_try_def by (auto split: prod.splits sum.splits)

lemma completions_loop_acc:
  "completions_loop sub es acc w =
     (case completions_loop sub es [] w of
        (Inl e, w') \<Rightarrow> (Inl e, w')
      | (Inr xs, w') \<Rightarrow> (Inr (acc @ xs), w'))"
proof (induction es arbitrary: acc w)
  case Nil
  show ?case by simp
next
  case (Cons enrolment rest)
  show ?case
  proof (cases enrolment)
    case (JDict e)
    show ?thesis
    proof (cases "truthy (dict_get e ''course_id'' JNull) \<and> truthy (dict_get e ''id'' JNull)")
      case False
      with JDict Cons.IH [of acc w] show ?thesis by auto
    next
      case True
      obtain r w' where ct:
        "completion_try sub (dict_get e ''course_id'' JNull) (dict_get e ''id'' JNull) w = (r, w')"
        by (cases "completion_try sub (dict_get e ''course_id'' JNull) (dict_get e ''id'' JNull) w")
      show ?thesis
      proof (cases r)
        case (Inl err)
        with JDict True ct Cons.IH [of acc w'] show ?thesis by simp
      next
        case (Inr completion)
        with JDict True ct Cons.IH [of "acc @ [completion]" w'] Cons.IH [of "[completion]" w']
        show ?thesis by (auto split: prod.splits sum.splits)
      qed
    qed
  qed simp_all
qed

lemma completions_loop_total:
  "\<forall>x \<in> set es. is_dict x \<Longrightarrow> \<exists>xs w'. completions_loop sub es acc w = (Inr xs, w')"
proof (induction es arbitrary: acc w)
  case Nil
  show ?case by simp
next
  case (Cons enrolment rest)
  from Cons.prems obtain e where e: "enrolment = JDict e" by (cases enrolment) auto
  from Cons.prems have rest: "\<forall>x \<in> set rest. is_dict x" by simp
  show ?case
    using e Cons.IH [OF rest]
    by (auto simp: Let_def split: prod.splits sum.splits)
qed

lemma completions_loop_append:
  "completions_loop sub (es1 @ es2) acc w =
     (case completions_loop sub es1 acc w of
        (Inl e, w1) \<Rightarrow> (Inl e, w1)
      | (Inr a, w1) \<Rightarrow> completions_loop sub es2 a w1)"
proof (induction es1 arbitrary: acc w)
  case Nil
  show ?case by simp
next
  case (Cons enrolment rest)
  show ?case
    by (cases enrolment) (auto simp: Cons.IH Let_def split: prod.splits sum.splits)
qed

lemma completions_loop_partial_failure:
  assumes dicts: "\<forall>x \<in> set es1 \<union> set es2. is_dict x"
    and cid: "truthy (dict_get e ''course_id'' JNull)"
    and uid: "truthy (dict_get e ''id'' JNull)"
  shows "\<exists>a1 w1 a2 w3.
      completions_loop sub es1 [] w = (Inr a1, w1)
    \<and> completions_loop sub es2 [] (snd (sub (dict_get e ''course_id'' JNull) (dict_get e ''id'' JNull) w1))
        = (Inr a2, w3)
    \<and> (\<exists>xs. completions_loop sub (es1 @ JDict e # es2) [] w = (Inr xs, w3))
    \<and> (\<forall>err. fst (sub (dict_get e ''course_id'' JNull) (dict_get e ''id'' JNull) w1) = Inl err \<longrightarrow>
          completions_loop sub (es1 @ JDict e # es2) [] w = (Inr (a1 @ a2), w3))
    \<and> (\<forall>d. fst (sub (dict_get e ''course_id'' JNull) (dict_get e ''id'' JNull) w1) = Inr (JDict d) \<longrightarrow>
          completions_loop sub (es1 @ JDict e # es2) [] w
            = (Inr (a1 @ [JDict (dict_set (dict_set d ''course_id'' (dict_get e ''course_id'' JNull))
                                   ''userid'' (dict_get e ''id'' JNull))] @ a2), w3))"
proof -
  let ?cid = "dict_get e ''course_id'' JNull"
  let ?uid = "dict_get e ''id'' JNull"
  from dicts have d1: "\<forall>x \<in> set es1. is_dict x" and d2: "\<forall>x \<in> set es2. is_dict x" by simp_all
  from completions_loop_total [OF d1, of sub "[]" w]
  obtain a1 w1 where r1: "completions_loop sub es1 [] w = (Inr a1, w1)" by blast
  let ?w2 = "snd (sub ?cid ?uid w1)"
  from completions_loop_total [OF d2, of sub "[]" ?w2]
  obtain a2 w3 where r2: "completions_loop sub es2 [] ?w2 = (Inr a2, w3)" by blast
  obtain r where ct: "completion_try sub ?cid ?uid w1 = (r, ?w2)"
    using completion_try_snd [of sub ?cid ?uid w1] by (cases "completion_try sub ?cid ?uid w1") simp
  have step: "completions_loop sub (es1 @ JDict e # es2) [] w =
                (case r of Inl err \<Rightarrow> (Inr (a1 @ a2), w3) | Inr x \<Rightarrow> (Inr (a1 @ [x] @ a2), w3))"
  proof (cases r)
    case (Inl err)
    have "completions_loop sub (es1 @ JDict e # es2) [] w = completions_loop sub es2 a1 ?w2"
      using r1 ct cid uid Inl by (simp add: completions_loop_append)
    also have "\<dots> = (Inr (a1 @ a2), w3)" using r2 by (subst completions_loop_acc) simp
    finally show ?thesis using Inl by simp
  next
    case (Inr x)
    have "completions_loop sub (es1 @ JDict e # es2) [] w = completions_loop sub es2 (a1 @ [x]) ?w2"
      using r1 ct cid uid Inr by (simp add: completions_loop_append)
    also have "\<dots> = (Inr ((a1 @ [x]) @ a2), w3)" using r2 by (subst completions_loop_acc) simp
    finally show ?thesis using Inr by simp
  qed
  have "\<exists>xs. completions_loop sub (es1 @ JDict e # es2) [] w = (Inr xs, w3)"
    using step by (cases r) simp_all
  moreover have "completions_loop sub (es1 @ JDict e # es2) [] w = (Inr (a1 @ a2), w3)"
    if "fst (sub ?cid ?uid w1) = Inl err" for err
    using completion_try_raises [of sub ?cid ?uid w1 err] that ct step by simp
  moreover have "completions_loop sub (es1 @ JDict e # es2) [] w
            = (Inr (a1 @ [JDict (dict_set (dict_set d ''course_id'' ?cid) ''userid'' ?uid)] @ a2), w3)"
    if "fst (sub ?cid ?uid w1) = Inr (JDict d)" for d
    using completion_try_record [of sub ?cid ?uid w1 d] that ct step by simp
  ultimately show ?thesis using r1 r2 by blast
qed

text \<open>
  Claim C9: in a fan-out extraction a sub-call that raises costs the data of its own
  course only, and no exception leaves the batch. For a list of courses (each an object)
  with a course \<open>c\<close> that has an identifier anywhere in it, the batch returns normally;
  when the sub-call of \<open>c\<close> raises, the result is what the courses before \<open>c\<close> gave
  followed by what the courses after it give; when it returns records, they stand in
  between, each tagged with the \<open>course_id\<close> of \<open>c\<close>. The per-course loop is the one of
  enrolments, enrolment methods, grade items and grades (\<open>sub\<close> being the client method).
  The second half is the same for completions, where the sub-call is per enrolment and
  the completion is tagged with its course and its user.
\<close>

theorem fan_out_failure_contained:
  "((\<forall>x \<in> set cs1 \<union> set cs2. is_dict x) \<and> truthy (dict_get c ''id'' JNull) \<longrightarrow>
     (\<exists>a1 w1 a2 w3.
        fan_out sub cs1 [] w = (Inr a1, w1)
      \<and> fan_out sub cs2 [] (snd (sub (dict_get c ''id'' JNull) w1)) = (Inr a2, w3)
      \<and> (\<exists>xs. fan_out sub (cs1 @ JDict c # cs2) [] w = (Inr xs, w3))
      \<and> (\<forall>e. fst (sub (dict_get c ''id'' JNull) w1) = Inl e \<longrightarrow>
            fan_out sub (cs1 @ JDict c # cs2) [] w = (Inr (a1 @ a2), w3))
      \<and> (\<forall>recs. fst (sub (dict_get c ''id'' JNull) w1) = Inr (JList (map JDict recs)) \<longrightarrow>
            fan_out sub (cs1 @ JDict c # cs2) [] w
              = (Inr (a1 @ map (\<lambda>r. JDict (dict_set r ''course_id'' (dict_get c ''id'' JNull))) recs @ a2), w3))))
   \<and> ((\<forall>x \<in> set es1 \<union> set es2. is_dict x) \<and> truthy (dict_get e ''course_id'' JNull)
        \<and> truthy (dict_get e ''id'' JNull) \<longrightarrow>
     (\<exists>b1 v1 b2 v3.
        completions_loop sub2 es1 [] v = (Inr b1, v1)
      \<and> completions_loop sub2 es2 [] (snd (sub2 (dict_get e ''course_id'' JNull) (dict_get e ''id'' JNull) v1))
          = (Inr b2, v3)
      \<and> (\<exists>xs. completions_loop sub2 (es1 @ JDict e # es2) [] v = (Inr xs, v3))
      \<and> (\<forall>err. fst (sub2 (dict_get e ''course_id'' JNull) (dict_get e ''id'' JNull) v1) = Inl err \<longrightarrow>
            completions_loop sub2 (es1 @ JDict e # es2) [] v = (Inr (b1 @ b2), v3))
      \<and> (\<forall>d. fst (sub2 (dict_get e ''course_id'' JNull) (dict_get e ''id'' JNull) v1) = Inr (JDict d) \<longrightarrow>
            completions_loop sub2 (es1 @ JDict e # es2) [] v
              = (Inr (b1 @ [JDict (dict_set (dict_set d ''course_id'' (dict_get e ''course_id'' JNull))
                                     ''userid'' (dict_get e ''id'' JNull))] @ b2), v3))))"
  using fan_out_partial_failure [of cs1 cs2 c sub w]
    completions_loop_partial_failure [of es1 es2 e sub2 v]
  by blast

text \<open>
  Claim C9 at three courses where the sub-call of the second raises: the result holds the
  data of the first and the third. The same for three enrolments.
\<close>

lemma extract_enrolments_sample:
  "fst (extract_enrolments second_call_fails sample_client
          [JDict [(''id'', JInt 1)], JDict [(''id'', JInt 2)], JDict [(''id'', JInt 3)]] fresh_world)
     = Inr [JDict [(''id'', JInt 11), (''course_id'', JInt 1)],
            JDict [(''id'', JInt 13), (''course_id'', JInt 3)]]"
  by (simp add: extract_enrolments_def get_enrolled_users_def course_try_def call_api_def
        session_post_200 dict_get_def has_key_def dict_update_def Let_def)

lemma extract_completions_sample:
  "fst (extract_completions second_call_fails sample_client
          [JDict [(''id'', JInt 11), (''course_id'', JInt 1)],
           JDict [(''id'', JInt 12), (''course_id'', JInt 1)],
           JDict [(''id'', JInt 13), (''course_id'', JInt 3)]] fresh_world)
     = Inr [JDict [(''id'', JInt 11), (''course_id'', JInt 1), (''userid'', JInt 11)],
            JDict [(''id'', JInt 13), (''course_id'', JInt 3), (''userid'', JInt 13)]]"
  by (simp add: extract_completions_def get_course_completion_def completion_try_def call_api_def
        session_post_200 dict_get_def has_key_def dict_update_def Let_def)

theorem fan_out_failure_contained_witness:
  "is_dict (JDict [(''id'', JInt 1)]) \<and> is_dict (JDict [(''id'', JInt 3)])
   \<and> truthy (dict_get [(''id'', JInt 2)] ''id'' JNull)
   \<and> fst (get_enrolled_users second_call_fails sample_client (JInt 2)
            (snd (extract_enrolments second_call_fails sample_client [JDict [(''id'', JInt 1)]] fresh_world)))
       = Inl (PyException ''Moodle API Error: denied'')
   \<and> fst (extract_enrolments second_call_fails sample_client
            [JDict [(''id'', JInt 1)], JDict [(''id'', JInt 2)], JDict [(''id'', JInt 3)]] fresh_world)
       = Inr [JDict [(''id'', JInt 11), (''course_id'', JInt 1)],
              JDict [(''id'', JInt 13), (''course_id'', JInt 3)]]
   \<and> is_dict (JDict [(''id'', JInt 11), (''course_id'', JInt 1)])
   \<and> is_dict (JDict [(''id'', JInt 13), (''course_id'', JInt 3)])
   \<and> truthy (dict_get [(''id'', JInt 12), (''course_id'', JInt 1)] ''course_id'' JNull)
   \<and> truthy (dict_get [(''id'', JInt 12), (''course_id'', JInt 1)] ''id'' JNull)
   \<and> fst (extract_completions second_call_fails sample_client
            [JDict [(''id'', JInt 11), (''course_id'', JInt 1)],
             JDict [(''id'', JInt 12), (''course_id'', JInt 1)],
             JDict [(''id'', JInt 13), (''course_id'', JInt 3)]] fresh_world)
       = Inr [JDict [(''id'', JInt 11), (''course_id'', JInt 1), (''userid'', JInt 11)],
              JDict [(''id'', JInt 13), (''course_id'', JInt 3), (''userid'', JInt 13)]]"
proof -
  let ?sub = "get_enrolled_users second_call_fails sample_client"
  let ?sub2 = "get_course_completion second_call_fails sample_client"
  have h1: "\<forall>x \<in> set [JDict [(''id'', JInt 1)]] \<union> set [JDict [(''id'', JInt 3)]]. is_dict x" by simp
  have h2: "truthy (dict_get [(''id'', JInt 2)] ''id'' JNull)" by (simp add: dict_get_def)
  have h3: "\<forall>x \<in> set [JDict [(''id'', JInt 11), (''course_id'', JInt 1)]]
                  \<union> set [JDict [(''id'', JInt 13), (''course_id'', JInt 3)]]. is_dict x" by simp
  have h4: "truthy (dict_get [(''id'', JInt 12), (''course_id'', JInt 1)] ''course_id'' JNull)"
    and h5: "truthy (dict_get [(''id'', JInt 12), (''course_id'', JInt 1)] ''id'' JNull)"
    by (simp_all add: dict_get_def)
  have raises: "fst (?sub (JInt 2)
            (snd (extract_enrolments second_call_fails sample_client [JDict [(''id'', JInt 1)]] fresh_world)))
       = Inl (PyException ''Moodle API Error: denied'')"
    by (simp add: extract_enrolments_def get_enrolled_users_def course_try_def call_api_def
        session_post_200 dict_get_def has_key_def dict_update_def Let_def)
  from fan_out_failure_contained [where ?cs1.0 = "[JDict [(''id'', JInt 1)]]"
      and ?cs2.0 = "[JDict [(''id'', JInt 3)]]" and c = "[(''id'', JInt 2)]" and sub = ?sub
      and w = fresh_world
      and ?es1.0 = "[JDict [(''id'', JInt 11), (''course_id'', JInt 1)]]"
      and ?es2.0 = "[JDict [(''id'', JInt 13), (''course_id'', JInt 3)]]"
      and e = "[(''id'', JInt 12), (''course_id'', JInt 1)]" and ?sub2.0 = ?sub2 and v = fresh_world]
    h1 h2 h3 h4 h5 raises extract_enrolments_sample extract_completions_sample
  show ?thesis by simp
qed

section \<open>Properties of record preparation\<close>

lemma prepare_records_nth:
  "prepare_records clock n ent items = Inr records \<Longrightarrow> i < length items \<Longrightarrow>
     length records = length items
     \<and> (\<exists>d. items ! i = JDict d
            \<and> records ! i = prepare_raw_record (clock (n + i)) MOODLE_INSTANCE (rstrip_chars ''s'' ent)
                               (py_or (dict_get d ''id'' JNull) (dict_get d ''course_id'' JNull))
                               (items ! i))"
proof (induction items arbitrary: n i records)
  case Nil
  then show ?case by simp
next
  case (Cons item rest)
  from Cons.prems(1) obtain d where d: "item = JDict d" by (cases item) auto
  from Cons.prems(1) d obtain rs where rs: "prepare_records clock (Suc n) ent rest = Inr rs"
    and recs: "records = prepare_raw_record (clock n) MOODLE_INSTANCE (rstrip_chars ''s'' ent)
                 (py_or (dict_get d ''id'' JNull) (dict_get d ''course_id'' JNull)) item # rs"
    by (auto simp: Let_def split: sum.splits)
  show ?case
  proof (cases i)
    case 0
    with d recs rs Cons.IH [OF rs] show ?thesis
      by (cases rest) (auto split: sum.splits)
  next
    case (Suc j)
    with Cons.prems(2) have "j < length rest" by simp
    from Cons.IH [OF rs this] Suc recs show ?thesis by simp
  qed
qed

lemma dag_entities_singular: "e \<in> set dag_entities \<Longrightarrow> rstrip_chars ''s'' e @ ''s'' = e"
  by (auto simp: dag_entities_def rstrip_chars_def)

text \<open>
  Claim C7, as stated: \<open>prepare_raw_record\<close> singularizes a plural entity label. It fails:
  the record carries the label as it was given.
\<close>

theorem prepare_raw_record_keeps_plural:
  "r_entity (prepare_raw_record ''2024-01-01T02:00:00'' ''moodle4'' ''users'' (JInt 1)
               (JDict [(''id'', JInt 1), (''username'', JStr ''a'')])) = ''users''"
  by (simp add: prepare_raw_record_def)

text \<open>
  Claim C7, amended: \<open>prepare_raw_record\<close> returns a record that carries the entity label
  it was given, the clock reading as the extraction time, the content hash of the data
  and the data serialised to a string; it is a function of its arguments and the clock
  reading. The singular label comes from its caller: every record that \<open>load_raw_data\<close>
  prepares carries the label of the load stripped of its trailing \<open>s\<close> characters, which
  for each label of the DAG is the label without its final \<open>s\<close>.
\<close>

theorem prepare_records_fields:
  assumes "prepare_records clock n ent items = Inr records" and "i < length items"
  shows "r_entity (prepare_raw_record now inst label mid data) = label
       \<and> r_ts_extract (prepare_raw_record now inst label mid data) = now
       \<and> r_hash_content (prepare_raw_record now inst label mid data) = compute_hash data
       \<and> r_data_json (prepare_raw_record now inst label mid data) = dumps False data
       \<and> length records = length items
       \<and> r_entity (records ! i) = rstrip_chars ''s'' ent
       \<and> r_ts_extract (records ! i) = clock (n + i)
       \<and> r_hash_content (records ! i) = compute_hash (items ! i)
       \<and> r_data_json (records ! i) = dumps False (items ! i)
       \<and> (ent \<in> set dag_entities \<longrightarrow> r_entity (records ! i) @ ''s'' = ent)"
  using prepare_records_nth [OF assms] dag_entities_singular [of ent]
  by (auto simp: prepare_raw_record_def)

text \<open>The amended claim C7 at the load of one user under the label \<open>users\<close>.\<close>

theorem prepare_records_fields_witness:
  "prepare_records (\<lambda>n. if n = 0 then ''2024-01-01T02:00:00.000001'' else ''2024-01-01T02:00:00.000002'')
       0 ''users'' [JDict [(''id'', JInt 1), (''username'', JStr ''a'')]]
     = Inr [prepare_raw_record ''2024-01-01T02:00:00.000001'' ''moodle4'' ''user'' (JInt 1)
              (JDict [(''id'', JInt 1), (''username'', JStr ''a'')])]
   \<and> ''users'' \<in> set dag_entities
   \<and> r_entity (prepare_raw_record ''2024-01-01T02:00:00.000001'' ''moodle4'' ''user'' (JInt 1)
                 (JDict [(''id'', JInt 1), (''username'', JStr ''a'')])) @ ''s'' = ''users''"
proof -
  let ?clock = "\<lambda>n :: nat. if n = 0 then ''2024-01-01T02:00:00.000001'' else ''2024-01-01T02:00:00.000002''"
  let ?items = "[JDict [(''id'', JInt 1), (''username'', JStr ''a'')]]"
  let ?r = "prepare_raw_record ''2024-01-01T02:00:00.000001'' ''moodle4'' ''user'' (JInt 1)
              (JDict [(''id'', JInt 1), (''username'', JStr ''a'')])"
  have p: "prepare_records ?clock 0 ''users'' ?items = Inr [?r]"
    by (simp add: MOODLE_INSTANCE_def rstrip_chars_def py_or_def dict_get_def)
  have e: "''users'' \<in> set dag_entities" by (simp add: dag_entities_def)
  have i: "0 < length ?items" by simp
  from prepare_records_fields [OF p i] e p show ?thesis by simp
qed

section \<open>Properties of the raw table\<close>

lemma execute_all_committed:
  "committed (snd (execute_all raises i rs conn)) = committed conn"
  by (induction rs arbitrary: i conn) simp_all

lemma execute_all_ok:
  "\<forall>j < length rs. \<not> raises (i + j) \<Longrightarrow>
     execute_all raises i rs conn = (None, conn\<lparr>pending := insert_all rs (pending conn)\<rparr>)"
proof (induction rs arbitrary: i conn)
  case Nil
  show ?case by (simp add: insert_all_def)
next
  case (Cons r rs)
  from Cons.prems have "\<not> raises i" by force
  moreover from Cons.prems have "\<forall>j < length rs. \<not> raises (Suc i + j)" by force
  ultimately show ?case using Cons.IH [of "Suc i"] by (simp add: insert_all_def)
qed

lemma execute_all_raises:
  "\<exists>j < length rs. raises (i + j) \<Longrightarrow> fst (execute_all raises i rs conn) = Some DatabaseError"
proof (induction rs arbitrary: i conn)
  case Nil
  then show ?case by simp
next
  case (Cons r rs)
  show ?case
  proof (cases "raises i")
    case True
    then show ?thesis by simp
  next
    case False
    from Cons.prems obtain j where j: "j < Suc (length rs)" "raises (i + j)" by auto
    with False have "j \<noteq> 0" by (cases j) auto
    then obtain j' where "j = Suc j'" by (cases j) auto
    with j have "\<exists>j < length rs. raises (Suc i + j)" by auto
    with False Cons.IH [of "Suc i"] show ?thesis by simp
  qed
qed

lemma bulk_insert_raises:
  assumes "\<exists>i < length records. raises i"
  shows "bulk_insert raises records table = (Inl DatabaseError, table)"
proof -
  from assms have "fst (execute_all raises 0 records (get_conn table)) = Some DatabaseError"
    using execute_all_raises [of records raises 0] by simp
  moreover have "committed (snd (execute_all raises 0 records (get_conn table))) = table"
    by (simp add: execute_all_committed get_conn_def)
  ultimately show ?thesis
    by (cases "execute_all raises 0 records (get_conn table)")
       (simp add: bulk_insert_def rollback_def)
qed

lemma bulk_insert_commits:
  assumes "\<forall>i < length records. \<not> raises i"
  shows "bulk_insert raises records table = (Inr (length records), insert_all records table)"
  using assms execute_all_ok [of records raises 0 "get_conn table"]
  by (simp add: bulk_insert_def commit_def get_conn_def)

lemma insert_keeps_distinct:
  "distinct (map row_key table) \<Longrightarrow> distinct (map row_key (insert_on_conflict_do_nothing r table))"
  by (simp add: insert_on_conflict_do_nothing_def)

lemma insert_has_key:
  "row_key r \<in> set (map row_key (insert_on_conflict_do_nothing r table))"
  by (simp add: insert_on_conflict_do_nothing_def)

lemma distinct_key_count:
  "distinct (map row_key t) \<Longrightarrow> k \<in> set (map row_key t) \<Longrightarrow>
     length (filter (\<lambda>x. row_key x = k) t) = 1"
proof (induction t)
  case Nil
  then show ?case by simp
next
  case (Cons x t)
  show ?case
  proof (cases "row_key x = k")
    case True
    with Cons.prems have "k \<notin> row_key ` set t" by simp
    then have "\<forall>y \<in> set t. row_key y \<noteq> k" by blast
    then have "filter (\<lambda>x. row_key x = k) t = []" by (simp add: filter_empty_conv)
    with True show ?thesis by simp
  next
    case False
    with Cons show ?thesis by auto
  qed
qed

text \<open>
  Claim C2: in a table whose keys are unique, persisting a record and persisting it
  again leaves one row with its key; the second insert, and any insert of a record whose
  key is in the table already, returns normally and leaves the table as it is. (The
  database raising on its own account is the matter of claim C3; here it does not.)
\<close>

theorem persist_twice_one_row:
  assumes "distinct (map row_key table)" and "\<not> raises 0" and "\<not> raises' 0"
  shows "\<exists>t1. bulk_insert raises [r] table = (Inr 1, t1)
              \<and> bulk_insert raises' [r] t1 = (Inr 1, t1)
              \<and> length (filter (\<lambda>x. row_key x = row_key r) t1) = 1
              \<and> (row_key r \<in> set (map row_key table) \<longrightarrow> t1 = table)"
proof -
  let ?t1 = "insert_on_conflict_do_nothing r table"
  from bulk_insert_commits [of "[r]" raises table] assms(2)
  have a: "bulk_insert raises [r] table = (Inr 1, ?t1)" by (simp add: insert_all_def)
  have k: "row_key r \<in> set (map row_key ?t1)" by (rule insert_has_key)
  then have same: "insert_on_conflict_do_nothing r ?t1 = ?t1"
    by (simp add: insert_on_conflict_do_nothing_def)
  from bulk_insert_commits [of "[r]" raises' ?t1] assms(3) same
  have b: "bulk_insert raises' [r] ?t1 = (Inr 1, ?t1)" by (simp add: insert_all_def)
  have c: "length (filter (\<lambda>x. row_key x = row_key r) ?t1) = 1"
    using distinct_key_count [OF insert_keeps_distinct [OF assms(1)] k] .
  have d: "row_key r \<in> set (map row_key table) \<longrightarrow> ?t1 = table"
    by (simp add: insert_on_conflict_do_nothing_def)
  from a b c d show ?thesis by blast
qed

text \<open>Claim C2 at a table of one row and a record with another key.\<close>

theorem persist_twice_one_row_witness:
  "distinct (map row_key [sample_row2])
   \<and> bulk_insert (\<lambda>i. False) [sample_row1] [sample_row2] = (Inr 1, [sample_row2, sample_row1])
   \<and> bulk_insert (\<lambda>i. False) [sample_row1] [sample_row2, sample_row1] = (Inr 1, [sample_row2, sample_row1])
   \<and> length (filter (\<lambda>x. row_key x = row_key sample_row1) [sample_row2, sample_row1]) = 1"
proof -
  have d: "distinct (map row_key [sample_row2])" by simp
  have e: "bulk_insert (\<lambda>i. False) [sample_row1] [sample_row2] = (Inr 1, [sample_row2, sample_row1])"
    by (simp add: bulk_insert_def get_conn_def commit_def insert_on_conflict_do_nothing_def
          row_key_def prepare_raw_record_def)
  from persist_twice_one_row [of "[sample_row2]" "\<lambda>i. False" "\<lambda>i. False" sample_row1] d e
  show ?thesis by auto
qed

text \<open>
  Claim C3: a batch is atomic. When the database raises on any statement of the batch,
  the caller gets the error and the table is as it was before the batch; when it raises
  on none, the caller gets the number of records and the table holds all of them.
\<close>

theorem bulk_insert_atomic:
  "((\<exists>i < length records. raises i) \<longrightarrow>
       bulk_insert raises records table = (Inl DatabaseError, table))
   \<and> ((\<forall>i < length records. \<not> raises i) \<longrightarrow>
       bulk_insert raises records table = (Inr (length records), insert_all records table))"
  using bulk_insert_raises [of records raises table] bulk_insert_commits [of records raises table]
  by blast

text \<open>Claim C3 at a batch of two records, with the second statement failing and with none failing.\<close>

theorem bulk_insert_atomic_witness:
  "bulk_insert (\<lambda>i. i = 1) [sample_row1, sample_row2] [] = (Inl DatabaseError, [])
   \<and> bulk_insert (\<lambda>i. False) [sample_row1, sample_row2] [] = (Inr 2, [sample_row1, sample_row2])"
proof -
  have "\<exists>i < length [sample_row1, sample_row2]. (\<lambda>i. i = 1) i" by auto
  with bulk_insert_atomic [of "[sample_row1, sample_row2]" "\<lambda>i. i = 1" "[]"]
  have a: "bulk_insert (\<lambda>i. i = 1) [sample_row1, sample_row2] [] = (Inl DatabaseError, [])"
    by blast
  have "insert_all [sample_row1, sample_row2] [] = [sample_row1, sample_row2]"
    by (simp add: insert_all_def insert_on_conflict_do_nothing_def row_key_def prepare_raw_record_def)
  with bulk_insert_atomic [of "[sample_row1, sample_row2]" "\<lambda>i. False" "[]"]
  have b: "bulk_insert (\<lambda>i. False) [sample_row1, sample_row2] [] = (Inr 2, [sample_row1, sample_row2])"
    by simp
  from a b show ?thesis by simp
qed

section \<open>Properties of the configuration parser\<close>

lemma csv_entries_nonempty: "x \<in> set (csv_entries s) \<Longrightarrow> x \<noteq> []"
  by (auto simp: csv_entries_def)

lemma csv_entries_empty: "csv_entries [] = []"
  by (simp add: csv_entries_def strip_def rstrip_def lstrip_def)

lemma build_configs_ok:
  "\<forall>p \<in> set ps. fst p \<noteq> [] \<and> snd p \<noteq> [] \<Longrightarrow>
     \<exists>cs. build_configs i ps = Inr cs \<and> length cs = length ps
        \<and> (\<forall>j < length ps. cs ! j = \<lparr>cfg_url = fst (ps ! j), cfg_token = snd (ps ! j),
                                         cfg_instance = ''moodle'' @ str_nat (i + j + 1)\<rparr>)"
proof (induction ps arbitrary: i)
  case Nil
  show ?case by simp
next
  case (Cons p ps)
  obtain u t where p: "p = (u, t)" by (cases p)
  from Cons.prems p have ne: "u \<noteq> []" "t \<noteq> []" by simp_all
  from Cons.prems have "\<forall>p \<in> set ps. fst p \<noteq> [] \<and> snd p \<noteq> []" by simp
  from Cons.IH [OF this, of "Suc i"] obtain cs where cs: "build_configs (Suc i) ps = Inr cs"
    "length cs = length ps"
    "\<forall>j < length ps. cs ! j = \<lparr>cfg_url = fst (ps ! j), cfg_token = snd (ps ! j),
                                  cfg_instance = ''moodle'' @ str_nat (Suc i + j + 1)\<rparr>"
    by blast
  let ?c = "\<lparr>cfg_url = u, cfg_token = t, cfg_instance = ''moodle'' @ str_nat (i + 1)\<rparr>"
  have "build_configs i (p # ps) = Inr (?c # cs)" using p ne cs(1) by simp
  moreover have "(?c # cs) ! j = \<lparr>cfg_url = fst ((p # ps) ! j), cfg_token = snd ((p # ps) ! j),
                                  cfg_instance = ''moodle'' @ str_nat (i + j + 1)\<rparr>"
    if "j < length (p # ps)" for j
    using that cs(3) p by (cases j) simp_all
  ultimately show ?case using cs(2) by auto
qed

text \<open>
  Claim C8, as stated: the configurations are named \<open>instance1\<close> to \<open>instanceN\<close>. It fails:
  the names are \<open>moodle1\<close> to \<open>moodleN\<close>.
\<close>

theorem parse_moodle_config_names:
  "parse_moodle_config ''https://m1.com,https://m2.com'' ''t1,t2''
     = Inr [\<lparr>cfg_url = ''https://m1.com'', cfg_token = ''t1'', cfg_instance = ''moodle1''\<rparr>,
            \<lparr>cfg_url = ''https://m2.com'', cfg_token = ''t2'', cfg_instance = ''moodle2''\<rparr>]"
  by code_simp

text \<open>
  Claim C8, amended: when the entries left of both lists after splitting, trimming and
  filtering are equally many and at least one, the parser returns that many
  configurations, the i-th with the i-th URL, the i-th token and the name \<open>moodle\<close>
  followed by i; it fails with a \<open>ValueError\<close> when either input is empty or the two counts
  differ.
\<close>

theorem parse_moodle_config_positional:
  "(length (csv_entries urls_str) = length (csv_entries tokens_str) \<and> csv_entries urls_str \<noteq> [] \<longrightarrow>
      (\<exists>configs. parse_moodle_config urls_str tokens_str = Inr configs
         \<and> length configs = length (csv_entries urls_str)
         \<and> (\<forall>i < length configs.
               configs ! i = \<lparr>cfg_url = csv_entries urls_str ! i,
                               cfg_token = csv_entries tokens_str ! i,
                               cfg_instance = ''moodle'' @ str_nat (i + 1)\<rparr>)))
   \<and> (urls_str = [] \<or> tokens_str = []
        \<or> length (csv_entries urls_str) \<noteq> length (csv_entries tokens_str) \<longrightarrow>
      (\<exists>msg. parse_moodle_config urls_str tokens_str = Inl (ValueError msg)))"
proof (intro conjI impI)
  let ?us = "csv_entries urls_str" and ?ts = "csv_entries tokens_str"
  assume a: "length ?us = length ?ts \<and> ?us \<noteq> []"
  then have ne: "urls_str \<noteq> []" "tokens_str \<noteq> []"
    using csv_entries_empty by auto
  have "\<forall>p \<in> set (zip ?us ?ts). fst p \<noteq> [] \<and> snd p \<noteq> []"
    using csv_entries_nonempty by (auto dest: set_zip_leftD set_zip_rightD)
  from build_configs_ok [OF this, of 0] obtain cs where
    cs: "build_configs 0 (zip ?us ?ts) = Inr cs" "length cs = length (zip ?us ?ts)"
      "\<forall>j < length (zip ?us ?ts). cs ! j = \<lparr>cfg_url = fst (zip ?us ?ts ! j),
          cfg_token = snd (zip ?us ?ts ! j), cfg_instance = ''moodle'' @ str_nat (0 + j + 1)\<rparr>"
    by blast
  have "parse_moodle_config urls_str tokens_str = Inr cs"
    using a ne cs(1) by (simp add: parse_moodle_config_def Let_def)
  moreover have "length cs = length ?us" using cs(2) a by simp
  moreover have "\<forall>i < length cs. cs ! i = \<lparr>cfg_url = ?us ! i, cfg_token = ?ts ! i,
                                             cfg_instance = ''moodle'' @ str_nat (i + 1)\<rparr>"
    using cs(2,3) a by simp
  ultimately show "\<exists>configs. parse_moodle_config urls_str tokens_str = Inr configs
         \<and> length configs = length ?us
         \<and> (\<forall>i < length configs.
               configs ! i = \<lparr>cfg_url = ?us ! i, cfg_token = ?ts ! i,
                               cfg_instance = ''moodle'' @ str_nat (i + 1)\<rparr>)"
    by blast
next
  assume "urls_str = [] \<or> tokens_str = []
        \<or> length (csv_entries urls_str) \<noteq> length (csv_entries tokens_str)"
  then show "\<exists>msg. parse_moodle_config urls_str tokens_str = Inl (ValueError msg)"
    by (auto simp: parse_moodle_config_def Let_def)
qed

text \<open>The amended claim C8 at two URLs with two tokens, and at two URLs with three tokens.\<close>

theorem parse_moodle_config_positional_witness:
  "length (csv_entries ''https://m1.com , https://m2.com'') = length (csv_entries ''t1,,t2'')
   \<and> csv_entries ''https://m1.com , https://m2.com'' \<noteq> []
   \<and> parse_moodle_config ''https://m1.com , https://m2.com'' ''t1,,t2''
       = Inr [\<lparr>cfg_url = ''https://m1.com'', cfg_token = ''t1'', cfg_instance = ''moodle1''\<rparr>,
              \<lparr>cfg_url = ''https://m2.com'', cfg_token = ''t2'', cfg_instance = ''moodle2''\<rparr>]
   \<and> length (csv_entries ''u1,u2'') \<noteq> length (csv_entries ''t1,t2,t3'')
   \<and> parse_moodle_config ''u1,u2'' ''t1,t2,t3''
       = Inl (ValueError ''Number of URLs (2) must match number of tokens (3). Ensure you have the same number of comma-separated URLs and tokens.'')"
proof -
  have u: "csv_entries ''https://m1.com , https://m2.com'' = [''https://m1.com'', ''https://m2.com'']"
    by code_simp
  have t: "csv_entries ''t1,,t2'' = [''t1'', ''t2'']" by code_simp
  have p: "parse_moodle_config ''https://m1.com , https://m2.com'' ''t1,,t2''
       = Inr [\<lparr>cfg_url = ''https://m1.com'', cfg_token = ''t1'', cfg_instance = ''moodle1''\<rparr>,
              \<lparr>cfg_url = ''https://m2.com'', cfg_token = ''t2'', cfg_instance = ''moodle2''\<rparr>]"
    by code_simp
  have u2: "csv_entries ''u1,u2'' = [''u1'', ''u2'']" by code_simp
  have t2: "csv_entries ''t1,t2,t3'' = [''t1'', ''t2'', ''t3'']" by code_simp
  have q: "parse_moodle_config ''u1,u2'' ''t1,t2,t3''
       = Inl (ValueError ''Number of URLs (2) must match number of tokens (3). Ensure you have the same number of comma-separated URLs and tokens.'')"
    by code_simp
  from parse_moodle_config_positional [of "''https://m1.com , https://m2.com''" "''t1,,t2''"]
    parse_moodle_config_positional [of "''u1,u2''" "''t1,t2,t3''"] u t p u2 t2 q
  show ?thesis by simp
qed

end
